theory Spec2Isabelle
  imports Main "HOL-Library.Sublist" "HOL-Library.AList"
begin

section \<open>Values, errors and locations\<close>

text \<open>
  A thrown JavaScript exception is a value of type \<open>error\<close>; a function that can throw
  returns \<open>error + 'a\<close> with \<open>Inl\<close> for the exception. The constructor's argument is the
  exception's message.
\<close>

datatype error = TypeError string | RangeError string | Error string

text \<open>
  The raw values a global's setting can have in a configuration object or in a
  \<open>/* globals */\<close> comment: \<open>undefined\<close>, \<open>null\<close>, a boolean or a string. Any other
  value (an object or a function, such as the methods that a plain object inherits) is
  a \<open>JObject\<close>, which carries its string conversion.
\<close>

datatype js_value = JUndefined | JNull | JBool bool | JString string | JObject string

text \<open>The three normalized settings: the strings "off", "readonly" and "writable".\<close>

datatype global_setting = Off | Readonly | Writable

text \<open>String conversion of a value inside a template literal.\<close>

fun js_to_string :: "js_value \<Rightarrow> string" where
  "js_to_string JUndefined = ''undefined''"
| "js_to_string JNull = ''null''"
| "js_to_string (JBool b) = (if b then ''true'' else ''false'')"
| "js_to_string (JString s) = s"
| "js_to_string (JObject s) = s"

record position =
  line :: int
  column :: int

record source_location =
  loc_start :: position
  loc_end :: position

section \<open>normalizeConfigGlobal\<close>

definition invalid_global_message :: "js_value \<Rightarrow> string" where
  "invalid_global_message configuredValue =
     [CHR 0x27] @ js_to_string configuredValue @ [CHR 0x27] @
     '' is not a valid configuration for a global (use '' @
     [CHR 0x27] @ ''readonly'' @ [CHR 0x27] @ '', '' @
     [CHR 0x27] @ ''writable'' @ [CHR 0x27] @ '', or '' @
     [CHR 0x27] @ ''off'' @ [CHR 0x27] @ '')''"

definition normalizeConfigGlobal :: "js_value \<Rightarrow> error + global_setting" where
  "normalizeConfigGlobal configuredValue =
     (if configuredValue = JString ''off'' then Inr Off
      else if configuredValue = JBool True \<or> configuredValue = JString ''true'' \<or>
              configuredValue = JString ''writeable'' \<or> configuredValue = JString ''writable''
        then Inr Writable
      else if configuredValue = JNull \<or> configuredValue = JBool False \<or>
              configuredValue = JString ''false'' \<or> configuredValue = JString ''readable'' \<or>
              configuredValue = JString ''readonly''
        then Inr Readonly
      else Inl (Error (invalid_global_message configuredValue)))"

text \<open>The recognized forms of a setting, as the \<open>switch\<close> lists them.\<close>

definition recognized_global :: "js_value \<Rightarrow> bool" where
  "recognized_global v \<longleftrightarrow>
     v \<in> set [JString ''off'', JBool True, JString ''true'', JString ''writeable'',
              JString ''writable'', JNull, JBool False, JString ''false'',
              JString ''readable'', JString ''readonly'']"

section \<open>The source text and its lines\<close>

text \<open>
  The source text is a JavaScript string: a sequence of UTF-16 code units, here natural
  numbers. Offsets, line numbers and columns that a caller passes are JavaScript
  numbers with integer values, here of type \<open>int\<close>.
\<close>

type_synonym code_units = "nat list"

text \<open>
  Modelled from the spec: the line-break matcher \<open>astUtils.createGlobalLinebreakMatcher()\<close>
  of the shared AST utilities, which are not among the sources. The line index is "built
  once by scanning for line-break sequences", and the lines are split "according to
  ECMA-262": a line break is CR LF, or one of CR, LF, U+2028 and U+2029.
  \<open>linebreakLength\<close> is the length of the line break a text starts with, 0 when it
  starts with none.
\<close>

definition isLinebreakUnit :: "nat \<Rightarrow> bool" where
  "isLinebreakUnit c \<longleftrightarrow> c = 0x0D \<or> c = 0x0A \<or> c = 0x2028 \<or> c = 0x2029"

fun linebreakLength :: "code_units \<Rightarrow> nat" where
  "linebreakLength [] = 0"
| "linebreakLength [c] = (if isLinebreakUnit c then 1 else 0)"
| "linebreakLength (c # d # cs) =
     (if c = 0x0D \<and> d = 0x0A then 2 else if isLinebreakUnit c then 1 else 0)"

text \<open>
  \<open>findLinebreak cs i\<close> searches the text \<open>cs\<close>, which starts at offset \<open>i\<close> of the
  whole text, for the first line break: its offset (\<open>match.index\<close>) and its length
  (\<open>match[0].length\<close>). \<open>lineEndingPattern_exec\<close> is \<open>lineEndingPattern.exec(text)\<close> for
  a matcher whose \<open>lastIndex\<close> is given.
\<close>

fun findLinebreak :: "code_units \<Rightarrow> nat \<Rightarrow> (nat \<times> nat) option" where
  "findLinebreak [] i = None"
| "findLinebreak (c # cs) i =
     (if 0 < linebreakLength (c # cs) then Some (i, linebreakLength (c # cs))
      else findLinebreak cs (Suc i))"

definition lineEndingPattern_exec :: "code_units \<Rightarrow> nat \<Rightarrow> (nat \<times> nat) option" where
  "lineEndingPattern_exec text lastIndex = findLinebreak (drop lastIndex text) lastIndex"

text \<open>\<open>text.slice(from, to)\<close> and \<open>text.slice(from)\<close> for offsets within the text.\<close>

definition slice :: "code_units \<Rightarrow> nat \<Rightarrow> nat \<Rightarrow> code_units" where
  "slice text from to = take (to - from) (drop from text)"

lemma findLinebreak_bounds:
  "findLinebreak cs i = Some (idx, len) \<Longrightarrow> i \<le> idx \<and> 0 < len \<and> idx + len \<le> i + length cs"
proof (induction cs i rule: findLinebreak.induct)
  case (1 i)
  then show ?case by simp
next
  case (2 c cs i)
  have "linebreakLength (c # cs) \<le> length (c # cs)"
    by (cases cs) auto
  with 2 show ?case
    by (auto split: if_splits)
qed

lemma lineEndingPattern_exec_bounds:
  assumes "lineEndingPattern_exec text lastIndex = Some (idx, len)"
  shows "lastIndex \<le> idx \<and> 0 < len \<and> lastIndex < idx + len \<and>
         (lastIndex \<le> length text \<longrightarrow> idx + len \<le> length text)"
  using findLinebreak_bounds[of "drop lastIndex text" lastIndex idx len] assms
  by (auto simp: lineEndingPattern_exec_def)

text \<open>
  The constructor's loop over the matches of the line-ending pattern; \<open>lastIndex\<close> is
  the state of the matcher, which \<open>exec\<close> leaves at the end of the match. After the
  loop the rest of the text is the last line.
\<close>

function splitLoop ::
  "code_units \<Rightarrow> nat \<Rightarrow> code_units list \<Rightarrow> nat list \<Rightarrow> code_units list \<times> nat list"
where
  "splitLoop text lastIndex lines lineStartIndices =
     (case lineEndingPattern_exec text lastIndex of
        None \<Rightarrow> (lines @ [drop (last lineStartIndices) text], lineStartIndices)
      | Some (idx, len) \<Rightarrow>
          splitLoop text (idx + len)
            (lines @ [slice text (last lineStartIndices) idx])
            (lineStartIndices @ [idx + len]))"
  by pat_completeness auto

termination
proof (relation "measure (\<lambda>(text, lastIndex, lines, lsi). Suc (length text) - lastIndex)")
  show "wf (measure (\<lambda>(text, lastIndex, lines, lsi). Suc (length text) - lastIndex))"
    by simp
next
  fix t :: code_units and lastIndex ls lsi x2 idx len
  assume "lineEndingPattern_exec t lastIndex = Some x2" "(idx, len) = x2"
  then have ex: "lineEndingPattern_exec t lastIndex = Some (idx, len)" by simp
  from findLinebreak_bounds[of "drop lastIndex t" lastIndex idx len] ex
  have b: "lastIndex \<le> idx" "0 < len" "idx + len \<le> lastIndex + length (drop lastIndex t)"
    by (auto simp: lineEndingPattern_exec_def)
  have "lastIndex < length t"
  proof (rule ccontr)
    assume "\<not> lastIndex < length t"
    then have "drop lastIndex t = []" by simp
    with ex show False by (simp add: lineEndingPattern_exec_def)
  qed
  with b show "((t, idx + len, ls @ [slice t (last lsi) idx], lsi @ [idx + len]),
         (t, lastIndex, ls, lsi))
        \<in> measure (\<lambda>(text, lastIndex, lines, lsi). Suc (length text) - lastIndex)"
    by simp
qed

section \<open>getLocFromIndex and getIndexFromLoc\<close>

text \<open>
  The binary search, with \<open>((low + high) / 2) | 0\<close> as the integer quotient: the sum of
  two indices of an array is below \<open>2^31\<close>, where \<open>| 0\<close> truncates a quotient that is
  not negative to its integer part.
\<close>

function findLineNumberLoop :: "nat list \<Rightarrow> int \<Rightarrow> nat \<Rightarrow> nat \<Rightarrow> nat" where
  "findLineNumberLoop lineStartIndices target low high =
     (if low < high then
        (let mid = (low + high) div 2 in
         if target < int (lineStartIndices ! mid)
           then findLineNumberLoop lineStartIndices target low mid
           else findLineNumberLoop lineStartIndices target (mid + 1) high)
      else low)"
  by pat_completeness auto

termination
  by (relation "measure (\<lambda>(lsi, target, low, high). high - low)") auto

definition findLineNumberBinarySearch :: "nat list \<Rightarrow> int \<Rightarrow> nat" where
  "findLineNumberBinarySearch lineStartIndices target =
     findLineNumberLoop lineStartIndices target 0 (length lineStartIndices)"

text \<open>
  The fields of a \<open>SourceCode\<close> object that the position methods read. The constructor
  strips a byte order mark from the text before it splits the text into lines.
\<close>

record source_code =
  hasBOM :: bool
  source_text :: code_units
  lines :: "code_units list"
  lineStartIndices :: "nat list"

definition SourceCode_new :: "code_units \<Rightarrow> bool \<Rightarrow> source_code" where
  "SourceCode_new text0 hasBOM0 =
     (let textHasBOM = (case text0 of [] \<Rightarrow> False | c # _ \<Rightarrow> c = 0xFEFF);
          text = (if textHasBOM then drop 1 text0 else text0);
          (lines, lineStartIndices) = splitLoop text 0 [] [0]
      in \<lparr>hasBOM = textHasBOM \<or> hasBOM0, source_text = text, lines = lines,
          lineStartIndices = lineStartIndices\<rparr>)"

text \<open>
  The messages of the range errors are the fixed text of the source's messages, without
  the numbers that the source interpolates into them. For a \<open>SourceCode\<close> object, which
  only the constructor builds, \<open>lines\<close> and \<open>lineStartIndices\<close> are not empty, so
  \<open>at(-1)\<close> is their last element.
\<close>

definition getLocFromIndex :: "source_code \<Rightarrow> int \<Rightarrow> error + position" where
  "getLocFromIndex sc index =
     (if index < 0 \<or> index > int (length (source_text sc))
        then Inl (RangeError ''Index out of range'')
      else if index = int (length (source_text sc))
        then Inr \<lparr>line = int (length (lines sc)), column = int (length (last (lines sc)))\<rparr>
      else
        (let lineNumber =
               (if index \<ge> int (last (lineStartIndices sc))
                  then length (lineStartIndices sc)
                  else findLineNumberBinarySearch (lineStartIndices sc) index)
         in Inr \<lparr>line = int lineNumber,
                 column = index - int (lineStartIndices sc ! (lineNumber - 1))\<rparr>))"

definition getIndexFromLoc :: "source_code \<Rightarrow> position \<Rightarrow> error + int" where
  "getIndexFromLoc sc loc =
     (if line loc \<le> 0
        then Inl (RangeError ''Line number out of range. Line numbers should be 1-based.'')
      else if line loc > int (length (lineStartIndices sc))
        then Inl (RangeError ''Line number out of range'')
      else if column loc < 0
        then Inl (RangeError ''Invalid column number'')
      else
        (let lineStartIndex = int (lineStartIndices sc ! nat (line loc - 1));
             lineEndIndex =
               (if line loc = int (length (lineStartIndices sc))
                  then int (length (source_text sc))
                  else int (lineStartIndices sc ! nat (line loc)));
             positionIndex = lineStartIndex + column loc
         in if (line loc = int (length (lineStartIndices sc)) \<and> positionIndex > lineEndIndex) \<or>
               (line loc < int (length (lineStartIndices sc)) \<and> positionIndex \<ge> lineEndIndex)
              then Inl (RangeError ''Column number out of range'')
            else Inr positionIndex))"

section \<open>isSpaceBetween\<close>

text \<open>
  A node or a token, as \<open>isSpaceBetween\<close> reads it: its identity, its \<open>type\<close>, its
  \<open>range\<close> and, for a token, its \<open>value\<close> as code units.
\<close>

record entity =
  ent_id :: nat
  ent_type :: string
  ent_range :: "nat \<times> nat"
  ent_value :: code_units

text \<open>
  The token store that \<open>SourceCode\<close> extends is a collaborator: its methods
  \<open>getLastToken\<close>, \<open>getFirstToken\<close> and \<open>getTokenAfter\<close> with \<open>includeComments\<close> are
  parameters of the model, \<open>None\<close> being the result \<open>null\<close>.
\<close>

record token_store =
  getLastToken :: "entity \<Rightarrow> entity option"
  getFirstToken :: "entity \<Rightarrow> entity option"
  getTokenAfter :: "entity \<Rightarrow> entity option"

definition nodesOrTokensOverlap :: "entity \<Rightarrow> entity \<Rightarrow> bool" where
  "nodesOrTokensOverlap first second \<longleftrightarrow>
     (fst (ent_range first) \<le> fst (ent_range second) \<and>
      snd (ent_range first) \<ge> fst (ent_range second)) \<or>
     (fst (ent_range second) \<le> fst (ent_range first) \<and>
      snd (ent_range second) \<ge> fst (ent_range first))"

text \<open>The regular expression \<open>/\s/u\<close>, tested on the code units of a value.\<close>

definition isWhitespaceUnit :: "nat \<Rightarrow> bool" where
  "isWhitespaceUnit c \<longleftrightarrow>
     (0x09 \<le> c \<and> c \<le> 0x0D) \<or> c = 0x20 \<or> c = 0xA0 \<or> c = 0x1680 \<or>
     (0x2000 \<le> c \<and> c \<le> 0x200A) \<or> c = 0x2028 \<or> c = 0x2029 \<or> c = 0x202F \<or>
     c = 0x205F \<or> c = 0x3000 \<or> c = 0xFEFF"

definition hasWhitespace :: "code_units \<Rightarrow> bool" where
  "hasWhitespace v \<longleftrightarrow> list_ex isWhitespaceUnit v"

text \<open>
  The \<open>while\<close> loop walks from token to token until it meets the final token. Nothing
  in the function bounds the walk, so the loop is a partial function: \<open>None\<close> is a walk
  that never ends. A \<open>null\<close> from \<open>getTokenAfter\<close> makes the read of \<open>nextToken.range\<close>
  throw. Tokens are compared by identity.
\<close>

partial_function (option) spaceLoop ::
  "token_store \<Rightarrow> bool \<Rightarrow> entity \<Rightarrow> entity \<Rightarrow> (error + bool) option"
where
  "spaceLoop ts checkInsideOfJSXText finalToken currentToken =
     (if ent_id currentToken = ent_id finalToken then Some (Inr False)
      else
        (case getTokenAfter ts currentToken of
           None \<Rightarrow> Some (Inl (TypeError ''Cannot read properties of null (reading range)''))
         | Some nextToken \<Rightarrow>
             if snd (ent_range currentToken) \<noteq> fst (ent_range nextToken) \<or>
                (checkInsideOfJSXText \<and> ent_id nextToken \<noteq> ent_id finalToken \<and>
                 ent_type nextToken = ''JSXText'' \<and> hasWhitespace (ent_value nextToken))
               then Some (Inr True)
               else spaceLoop ts checkInsideOfJSXText finalToken nextToken))"

definition isSpaceBetween ::
  "token_store \<Rightarrow> entity \<Rightarrow> entity \<Rightarrow> bool \<Rightarrow> (error + bool) option"
where
  "isSpaceBetween sourceCode first second checkInsideOfJSXText =
     (if nodesOrTokensOverlap first second then Some (Inr False)
      else
        (let (startingNodeOrToken, endingNodeOrToken) =
               (if snd (ent_range first) \<le> fst (ent_range second)
                  then (first, second) else (second, first));
             firstToken = (case getLastToken sourceCode startingNodeOrToken of
                             Some t \<Rightarrow> t | None \<Rightarrow> startingNodeOrToken);
             finalToken = (case getFirstToken sourceCode endingNodeOrToken of
                             Some t \<Rightarrow> t | None \<Rightarrow> endingNodeOrToken)
         in spaceLoop sourceCode checkInsideOfJSXText finalToken firstToken))"

text \<open>The methods \<open>isSpaceBetween\<close> and \<open>isSpaceBetweenTokens\<close> of \<open>SourceCode\<close>.\<close>

definition SourceCode_isSpaceBetween ::
  "token_store \<Rightarrow> entity \<Rightarrow> entity \<Rightarrow> (error + bool) option"
where
  "SourceCode_isSpaceBetween this first second = isSpaceBetween this first second False"

definition SourceCode_isSpaceBetweenTokens ::
  "token_store \<Rightarrow> entity \<Rightarrow> entity \<Rightarrow> (error + bool) option"
where
  "SourceCode_isSpaceBetweenTokens this first second = isSpaceBetween this first second True"

section \<open>Comments, directives and the comment parser\<close>

record comment =
  com_type :: string
  com_value :: string
  com_loc :: source_location

text \<open>What \<open>commentParser.parseDirective\<close> returns for a directive comment.\<close>

record directive_parts =
  dir_label :: string
  dir_value :: string
  dir_justification :: string

text \<open>
  The collaborators that are not part of this module are parameters of the model: the
  methods of the \<open>ConfigCommentParser\<close> of \<open>@eslint/plugin-kit\<close>, and the regular
  expression \<open>directivesPattern\<close> of the shared directives module, as its \<open>test\<close>
  method on a label. \<open>parseListConfig\<close> returns an object whose keys are the listed
  names (here the list of keys); \<open>parseJSONLikeConfig\<close> returns either an error with a
  message or a rules configuration of some type \<open>'cfg\<close>.
\<close>

record 'cfg collaborators =
  parseDirective :: "string \<Rightarrow> directive_parts option"
  parseStringConfig :: "string \<Rightarrow> (string \<times> js_value) list"
  parseListConfig :: "string \<Rightarrow> string list"
  parseJSONLikeConfig :: "string \<Rightarrow> string + 'cfg"
  directivesPattern_test :: "string \<Rightarrow> bool"

record problem =
  ruleId :: "string option"
  message :: string
  prob_loc :: source_location

text \<open>A \<open>Directive\<close> object of \<open>@eslint/plugin-kit\<close>: the four fields the constructor stores.\<close>

record directive =
  directive_type :: string
  directive_node :: comment
  directive_value :: string
  directive_justification :: string

record disable_directives =
  dd_problems :: "problem list"
  dd_directives :: "directive list"

text \<open>An entry of \<open>inlineGlobals\<close>: the comments that declare the name, and its setting.\<close>

record inline_global =
  ig_comments :: "comment list"
  ig_value :: global_setting

record 'cfg inline_config =
  config_rules :: 'cfg
  config_loc :: source_location

text \<open>
  The caches of a \<open>SourceCode\<close> object that the directive methods use: the entries
  \<open>configNodes\<close> and \<open>disableDirectives\<close> of the \<open>caches\<close> map, and the entries
  \<open>inlineGlobals\<close> and \<open>exportedVariables\<close> of the \<open>vars\<close> cache. \<open>None\<close> is an entry
  that is absent or \<open>undefined\<close>, as all four are after construction.
\<close>

record directive_caches =
  configNodes :: "comment list option"
  disableDirectives :: "disable_directives option"
  vars_inlineGlobals :: "(string \<times> inline_global) list option"
  vars_exportedVariables :: "string list option"

definition new_directive_caches :: directive_caches where
  "new_directive_caches =
     \<lparr>configNodes = None, disableDirectives = None, vars_inlineGlobals = None,
      vars_exportedVariables = None\<rparr>"

text \<open>The regular expression \<open>/^eslint-disable-(next-)?line$/u\<close>, tested on a label.\<close>

definition lineCommentSupported :: "string \<Rightarrow> bool" where
  "lineCommentSupported label \<longleftrightarrow>
     label = ''eslint-disable-line'' \<or> label = ''eslint-disable-next-line''"

section \<open>getInlineConfigNodes\<close>

definition isInlineConfigNode :: "'cfg collaborators \<Rightarrow> comment \<Rightarrow> bool" where
  "isInlineConfigNode ext comment =
     (if com_type comment = ''Shebang'' then False
      else case parseDirective ext (com_value comment) of
        None \<Rightarrow> False
      | Some directive \<Rightarrow>
          if \<not> directivesPattern_test ext (dir_label directive) then False
          else com_type comment \<noteq> ''Line'' \<or> lineCommentSupported (dir_label directive))"

text \<open>
  The methods take the comments of the AST (\<open>this.ast.comments\<close>) and the caches, and
  return their result with the caches as they leave them. An array is truthy also when
  empty, so a cached empty list is returned as it is.
\<close>

definition getInlineConfigNodes ::
  "'cfg collaborators \<Rightarrow> comment list \<Rightarrow> directive_caches \<Rightarrow> comment list \<times> directive_caches"
where
  "getInlineConfigNodes ext comments caches =
     (case configNodes caches of
        Some nodes \<Rightarrow> (nodes, caches)
      | None \<Rightarrow>
          (let nodes = filter (isInlineConfigNode ext) comments
           in (nodes, caches\<lparr>configNodes := Some nodes\<rparr>)))"

section \<open>getDisableDirectives\<close>

text \<open>
  One iteration of the \<open>forEach\<close> over the inline configuration nodes. Destructuring the
  result of \<open>parseDirective\<close> throws a \<open>TypeError\<close> when there is none.
\<close>

definition disableDirectiveStep ::
  "'cfg collaborators \<Rightarrow> comment \<Rightarrow> disable_directives \<Rightarrow> error + disable_directives"
where
  "disableDirectiveStep ext comment acc =
     (case parseDirective ext (com_value comment) of
        None \<Rightarrow> Inl (TypeError ''Cannot destructure the result of parseDirective'')
      | Some parts \<Rightarrow>
          (let label = dir_label parts in
           if com_type comment = ''Line'' \<and> \<not> lineCommentSupported label then Inr acc
           else if label = ''eslint-disable-line'' \<and>
                   line (loc_start (com_loc comment)) \<noteq> line (loc_end (com_loc comment))
             then Inr (acc\<lparr>dd_problems := dd_problems acc @
                    [\<lparr>ruleId = None,
                      message = label @ '' comment should not span multiple lines.'',
                      prob_loc = com_loc comment\<rparr>]\<rparr>)
           else if label = ''eslint-disable'' \<or> label = ''eslint-enable'' \<or>
                   label = ''eslint-disable-next-line'' \<or> label = ''eslint-disable-line''
             then Inr (acc\<lparr>dd_directives := dd_directives acc @
                    [\<lparr>directive_type = drop (length ''eslint-'') label,
                      directive_node = comment,
                      directive_value = dir_value parts,
                      directive_justification = dir_justification parts\<rparr>]\<rparr>)
           else Inr acc))"

fun forEachComment ::
  "(comment \<Rightarrow> 'a \<Rightarrow> error + 'a) \<Rightarrow> comment list \<Rightarrow> 'a \<Rightarrow> error + 'a"
where
  "forEachComment f [] acc = Inr acc"
| "forEachComment f (c # cs) acc =
     (case f c acc of Inl e \<Rightarrow> Inl e | Inr acc' \<Rightarrow> forEachComment f cs acc')"

definition getDisableDirectives ::
  "'cfg collaborators \<Rightarrow> comment list \<Rightarrow> directive_caches
     \<Rightarrow> error + (disable_directives \<times> directive_caches)"
where
  "getDisableDirectives ext comments caches =
     (case disableDirectives caches of
        Some cachedDirectives \<Rightarrow> Inr (cachedDirectives, caches)
      | None \<Rightarrow>
          (let (nodes, caches1) = getInlineConfigNodes ext comments caches in
           case forEachComment (disableDirectiveStep ext) nodes
                  \<lparr>dd_problems = [], dd_directives = []\<rparr> of
             Inl e \<Rightarrow> Inl e
           | Inr result \<Rightarrow> Inr (result, caches1\<lparr>disableDirectives := Some result\<rparr>)))"

section \<open>applyInlineConfig\<close>

record 'cfg inline_config_state =
  ic_problems :: "problem list"
  ic_configs :: "'cfg inline_config list"
  ic_exportedVariables :: "string list"
  ic_inlineGlobals :: "(string \<times> inline_global) list"

text \<open>\<open>Object.assign(exportedVariables, names)\<close> on the keys: a new key goes to the end.\<close>

definition assignKeys :: "string list \<Rightarrow> string list \<Rightarrow> string list" where
  "assignKeys target names = fold (\<lambda>n acc. if n \<in> set acc then acc else acc @ [n]) names target"

text \<open>The body of the loop over the entries of a \<open>globals\<close> comment.\<close>

definition globalEntryStep ::
  "comment \<Rightarrow> string \<times> js_value \<Rightarrow> 'cfg inline_config_state \<Rightarrow> 'cfg inline_config_state"
where
  "globalEntryStep comment entry st =
     (case entry of (gid, idSetting) \<Rightarrow>
        (case normalizeConfigGlobal idSetting of
           Inl err \<Rightarrow>
             st\<lparr>ic_problems := ic_problems st @
                  [\<lparr>ruleId = None,
                    message = (case err of TypeError m \<Rightarrow> m | RangeError m \<Rightarrow> m | Error m \<Rightarrow> m),
                    prob_loc = com_loc comment\<rparr>]\<rparr>
         | Inr normalizedValue \<Rightarrow>
             (case map_of (ic_inlineGlobals st) gid of
                Some g \<Rightarrow>
                  st\<lparr>ic_inlineGlobals := AList.update gid
                       \<lparr>ig_comments = ig_comments g @ [comment], ig_value = normalizedValue\<rparr>
                       (ic_inlineGlobals st)\<rparr>
              | None \<Rightarrow>
                  st\<lparr>ic_inlineGlobals := AList.update gid
                       \<lparr>ig_comments = [comment], ig_value = normalizedValue\<rparr>
                       (ic_inlineGlobals st)\<rparr>)))"

definition inlineConfigStep ::
  "'cfg collaborators \<Rightarrow> comment \<Rightarrow> 'cfg inline_config_state
     \<Rightarrow> error + 'cfg inline_config_state"
where
  "inlineConfigStep ext comment st =
     (case parseDirective ext (com_value comment) of
        None \<Rightarrow> Inl (TypeError ''Cannot destructure the result of parseDirective'')
      | Some parts \<Rightarrow>
          (let label = dir_label parts; v = dir_value parts in
           if label = ''exported''
             then Inr (st\<lparr>ic_exportedVariables :=
                    assignKeys (ic_exportedVariables st) (parseListConfig ext v)\<rparr>)
           else if label = ''globals'' \<or> label = ''global''
             then Inr (fold (globalEntryStep comment) (parseStringConfig ext v) st)
           else if label = ''eslint''
             then (case parseJSONLikeConfig ext v of
                     Inr config \<Rightarrow>
                       Inr (st\<lparr>ic_configs := ic_configs st @
                              [\<lparr>config_rules = config, config_loc = com_loc comment\<rparr>]\<rparr>)
                   | Inl msg \<Rightarrow>
                       Inr (st\<lparr>ic_problems := ic_problems st @
                              [\<lparr>ruleId = None, message = msg, prob_loc = com_loc comment\<rparr>]\<rparr>))
           else Inr st))"

text \<open>The method returns \<open>{configs, problems}\<close> and stores the globals and the exports.\<close>

definition applyInlineConfig ::
  "'cfg collaborators \<Rightarrow> comment list \<Rightarrow> directive_caches
     \<Rightarrow> error + (('cfg inline_config list \<times> problem list) \<times> directive_caches)"
where
  "applyInlineConfig ext comments caches =
     (let (nodes, caches1) = getInlineConfigNodes ext comments caches in
      case forEachComment (inlineConfigStep ext) nodes
             \<lparr>ic_problems = [], ic_configs = [], ic_exportedVariables = [],
              ic_inlineGlobals = []\<rparr> of
        Inl e \<Rightarrow> Inl e
      | Inr st \<Rightarrow>
          Inr ((ic_configs st, ic_problems st),
               caches1\<lparr>vars_inlineGlobals := Some (ic_inlineGlobals st),
                       vars_exportedVariables := Some (ic_exportedVariables st)\<rparr>))"

section \<open>AST nodes and the scope manager\<close>

text \<open>
  The properties of an AST node that the methods and the rule read. \<open>node_id\<close> stands for
  the identity of the node object. \<open>node_name\<close> is the \<open>name\<close> of an \<open>Identifier\<close> or a
  \<open>PrivateIdentifier\<close>; \<open>node_implements\<close> is the length of the \<open>implements\<close> array of
  a class, 0 when the class has none.
\<close>

record node_attrs =
  node_id :: nat
  node_type :: string
  node_name :: string
  node_static :: bool
  node_kind :: string
  node_computed :: bool
  node_override :: bool
  node_accessibility :: "string option"
  node_implements :: nat

text \<open>
  A node as a method or a handler sees it: its own properties, the properties of its
  \<open>key\<close> child when it has one, the name of the property of its parent that holds it,
  and the chain of its \<open>parent\<close> references.
\<close>

datatype ast_node =
  AstNode (attrs: node_attrs) (key: "node_attrs option") (field: string)
    (parent: "ast_node option")

text \<open>A node with the given identity, type and name, and no other property set.\<close>

definition plain_node :: "nat \<Rightarrow> string \<Rightarrow> string \<Rightarrow> node_attrs" where
  "plain_node i t n =
     \<lparr>node_id = i, node_type = t, node_name = n, node_static = False, node_kind = [],
      node_computed = False, node_override = False, node_accessibility = None,
      node_implements = 0\<rparr>"

text \<open>
  A \<open>Variable\<close> and a \<open>Reference\<close> of \<open>eslint-scope\<close> are objects that several arrays
  and maps share and that \<open>addDeclaredGlobals\<close> mutates, so they live in a store: a list
  of objects, an object's address being its index. A \<open>Map\<close> from names is an association
  list in insertion order.
\<close>

record variable =
  var_name :: string
  var_defs :: "nat list"
  var_references :: "nat list"
  eslintImplicitGlobalSetting :: "global_setting option"
  eslintExplicitGlobal :: "bool option"
  eslintExplicitGlobalComments :: "comment list option"
  writeable :: "bool option"

record reference =
  ref_identifier :: node_attrs
  ref_resolved :: "nat option"

record object_store =
  variableObjects :: "variable list"
  referenceObjects :: "reference list"

text \<open>The \<open>implicit\<close> property of a global scope, when the scope has one.\<close>

record implicit_info =
  implicit_variables :: "nat list"
  implicit_set :: "(string \<times> nat) list"
  implicit_left :: "nat list option"

datatype scope =
  Scope (scope_type: string) (childScopes: "scope list") (variables: "nat list")
    (scope_set: "(string \<times> nat) list") (through: "nat list")
    (implicit: "implicit_info option")

text \<open>
  The scope manager is a collaborator: its \<open>scopes\<close> array and its method
  \<open>acquire(node, inner)\<close>, a function of the node's identity.
\<close>

record scope_manager =
  scopes :: "scope list"
  acquire :: "nat \<Rightarrow> bool \<Rightarrow> scope option"

section \<open>getScope\<close>

text \<open>
  The cache \<open>scopes\<close> is a \<open>WeakMap\<close> from nodes to what was stored for them, which can
  be \<open>undefined\<close> (\<open>Some None\<close>) when an array had no first element. The loop follows the
  parent chain from the current node; \<open>this.scopeManager\<close> is \<open>null\<close> for an object built
  without one, and the call of \<open>acquire\<close> on it throws.
\<close>

type_synonym scopes_cache = "nat \<Rightarrow> scope option option"

definition firstElement :: "'a list \<Rightarrow> 'a option" where
  "firstElement xs = (case xs of [] \<Rightarrow> None | x # _ \<Rightarrow> Some x)"

fun getScopeLoop ::
  "scope_manager option \<Rightarrow> scopes_cache \<Rightarrow> nat \<Rightarrow> bool \<Rightarrow> ast_node
     \<Rightarrow> (error + scope option) \<times> scopes_cache"
where
  "getScopeLoop sm cache currentId inner (AstNode a k f p) =
     (case sm of
        None \<Rightarrow> (Inl (TypeError ''Cannot read properties of null (reading acquire)''), cache)
      | Some m \<Rightarrow>
          (case acquire m (node_id a) inner of
             Some s \<Rightarrow>
               if scope_type s = ''function-expression-name''
                 then (Inr (firstElement (childScopes s)),
                       cache(currentId := Some (firstElement (childScopes s))))
                 else (Inr (Some s), cache(currentId := Some (Some s)))
           | None \<Rightarrow>
               (case p of
                  Some n \<Rightarrow> getScopeLoop sm cache currentId inner n
                | None \<Rightarrow>
                    (Inr (firstElement (scopes m)),
                     cache(currentId := Some (firstElement (scopes m)))))))"

definition getScope ::
  "scope_manager option \<Rightarrow> scopes_cache \<Rightarrow> ast_node option
     \<Rightarrow> (error + scope option) \<times> scopes_cache"
where
  "getScope sm cache currentNode =
     (case currentNode of
        None \<Rightarrow> (Inl (TypeError ''Missing required argument: node.''), cache)
      | Some n \<Rightarrow>
          (case cache (node_id (attrs n)) of
             Some (Some cachedScope) \<Rightarrow> (Inr (Some cachedScope), cache)
           | _ \<Rightarrow>
               getScopeLoop sm cache (node_id (attrs n))
                 (node_type (attrs n) \<noteq> ''Program'') n))"

section \<open>isGlobalReference\<close>

type_synonym global_reference_cache = "nat \<Rightarrow> bool option"

definition isGlobalReference ::
  "scope_manager option \<Rightarrow> object_store \<Rightarrow> global_reference_cache \<Rightarrow> ast_node option
     \<Rightarrow> (error + bool) \<times> global_reference_cache"
where
  "isGlobalReference sm store cache node =
     (case node of
        None \<Rightarrow> (Inl (TypeError ''Missing required argument: node.''), cache)
      | Some n \<Rightarrow>
          (case cache (node_id (attrs n)) of
             Some cached \<Rightarrow> (Inr cached, cache)
           | None \<Rightarrow>
               if node_type (attrs n) \<noteq> ''Identifier''
                 then (Inr False, cache(node_id (attrs n) := Some False))
               else
                 (case sm of
                    None \<Rightarrow>
                      (Inl (TypeError ''Cannot read properties of null (reading scopes)''), cache)
                  | Some m \<Rightarrow>
                      (case scopes m of
                         [] \<Rightarrow>
                           (Inl (TypeError ''Cannot read properties of undefined (reading set)''),
                            cache)
                       | globalScope # _ \<Rightarrow>
                           (case map_of (scope_set globalScope) (node_name (attrs n)) of
                              None \<Rightarrow> (Inr False, cache(node_id (attrs n) := Some False))
                            | Some v \<Rightarrow>
                                (let var = variableObjects store ! v in
                                 if length (var_defs var) > 0
                                   then (Inr False, cache(node_id (attrs n) := Some False))
                                 else
                                   (let result = list_ex
                                          (\<lambda>r. node_id (ref_identifier (referenceObjects store ! r)) =
                                               node_id (attrs n))
                                          (var_references var)
                                    in (Inr result,
                                        cache(node_id (attrs n) := Some result)))))))))"

section \<open>addDeclaredGlobals\<close>

text \<open>
  The function mutates the global scope and the variables and references it reaches;
  the model passes the scope and the store of objects in and returns them as the
  function leaves them. The configured globals are an object from names to raw values,
  the inline globals an object from names to entries, both as association lists of
  their own properties in the order of their keys. An object that is passed has no
  prototype: \<open>finalize\<close>, the only caller, passes what \<open>applyLanguageOptions\<close> and
  \<open>applyInlineConfig\<close> built on \<open>Object.create(null)\<close>, or \<open>undefined\<close>. An argument
  that is \<open>undefined\<close> (\<open>None\<close>) defaults to the literal \<open>{}\<close>: it has no key of its
  own, and a read of one of the names of \<open>Object.prototype\<close> finds the inherited
  property.
\<close>

text \<open>
  The properties of \<open>Object.prototype\<close>: eleven built-in functions, whose string
  conversion is the text of a native function, and the accessor \<open>__proto__\<close>, whose
  value on a plain object is \<open>Object.prototype\<close> itself. None of them is enumerable, so
  \<open>Object.keys\<close> does not list them.
\<close>

definition nativeFunction :: "string \<Rightarrow> js_value" where
  "nativeFunction name = JObject (''function '' @ name @ ''() { [native code] }'')"

definition objectPrototype :: "(string \<times> js_value) list" where
  "objectPrototype =
     (''constructor'', nativeFunction ''Object'') #
     map (\<lambda>name. (name, nativeFunction name))
       [''__defineGetter__'', ''__defineSetter__'', ''hasOwnProperty'',
        ''__lookupGetter__'', ''__lookupSetter__'', ''isPrototypeOf'',
        ''propertyIsEnumerable'', ''toString'', ''valueOf'', ''toLocaleString''] @
     [(''__proto__'', JObject ''[object Object]'')]"

text \<open>
  The read \<open>configGlobals[id]\<close>: an own property first, then, for the plain default
  object, an inherited one; \<open>None\<close> is \<open>undefined\<close>.
\<close>

definition configProperty ::
  "bool \<Rightarrow> (string \<times> js_value) list \<Rightarrow> string \<Rightarrow> js_value option"
where
  "configProperty plain configGlobals gid =
     (case map_of configGlobals gid of
        Some v \<Rightarrow> Some v
      | None \<Rightarrow> if plain then map_of objectPrototype gid else None)"

record scope_state =
  globalScope :: scope
  objects :: object_store

definition set_variables :: "nat list \<Rightarrow> scope \<Rightarrow> scope" where
  "set_variables vs g =
     Scope (scope_type g) (childScopes g) vs (scope_set g) (through g) (implicit g)"

definition set_scope_set :: "(string \<times> nat) list \<Rightarrow> scope \<Rightarrow> scope" where
  "set_scope_set st g =
     Scope (scope_type g) (childScopes g) (variables g) st (through g) (implicit g)"

definition set_through :: "nat list \<Rightarrow> scope \<Rightarrow> scope" where
  "set_through th g =
     Scope (scope_type g) (childScopes g) (variables g) (scope_set g) th (implicit g)"

definition set_implicit :: "implicit_info option \<Rightarrow> scope \<Rightarrow> scope" where
  "set_implicit im g =
     Scope (scope_type g) (childScopes g) (variables g) (scope_set g) (through g) im"

text \<open>A write to a property of the object at an address of the store.\<close>

definition updateVariable :: "nat \<Rightarrow> (variable \<Rightarrow> variable) \<Rightarrow> object_store \<Rightarrow> object_store"
where
  "updateVariable a f st =
     st\<lparr>variableObjects := (variableObjects st)[a := f (variableObjects st ! a)]\<rparr>"

definition updateReference ::
  "nat \<Rightarrow> (reference \<Rightarrow> reference) \<Rightarrow> object_store \<Rightarrow> object_store"
where
  "updateReference a f st =
     st\<lparr>referenceObjects := (referenceObjects st)[a := f (referenceObjects st ! a)]\<rparr>"

text \<open>
  \<open>new eslintScope.Variable(id, globalScope)\<close>: a variable with the given name and no
  definitions or references; the properties that \<open>addDeclaredGlobals\<close> assigns are
  not set yet.
\<close>

definition newVariable :: "string \<Rightarrow> variable" where
  "newVariable gid =
     \<lparr>var_name = gid, var_defs = [], var_references = [],
      eslintImplicitGlobalSetting = None, eslintExplicitGlobal = None,
      eslintExplicitGlobalComments = None, writeable = None\<rparr>"

text \<open>The elements of \<open>new Set([...])\<close> in iteration order: the first occurrences.\<close>

definition uniqueKeys :: "string list \<Rightarrow> string list" where
  "uniqueKeys ks = fold (\<lambda>k acc. if k \<in> set acc then acc else acc @ [k]) ks []"

text \<open>
  The constants of one iteration: \<open>configValue\<close>, \<open>sourceComments\<close> and \<open>value\<close>.
  \<open>normalizeConfigGlobal\<close> can throw. A setting is a non-empty string, so
  \<open>commentValue || configValue\<close> is the comment's value whenever there is an entry.
  The flag \<open>plain\<close> says that \<open>configGlobals\<close> is the default object. For the default
  \<open>inlineGlobals\<close> no flag is needed: it has no key of its own, and what it inherits
  is a function or an object with neither a \<open>value\<close> nor a \<open>comments\<close> property, so
  both reads give \<open>undefined\<close>, as for a name that is absent.
\<close>

record global_entry =
  ge_configValue :: "global_setting option"
  ge_sourceComments :: "comment list option"
  ge_value :: "global_setting option"

definition globalEntry ::
  "bool \<Rightarrow> (string \<times> js_value) list \<Rightarrow> (string \<times> inline_global) list \<Rightarrow> string
     \<Rightarrow> error + global_entry"
where
  "globalEntry plain configGlobals inlineGlobals gid =
     (let commentValue = map_option ig_value (map_of inlineGlobals gid);
          sourceComments = map_option ig_comments (map_of inlineGlobals gid);
          entry = (\<lambda>configValue.
            \<lparr>ge_configValue = configValue, ge_sourceComments = sourceComments,
             ge_value = (case commentValue of Some v \<Rightarrow> Some v | None \<Rightarrow> configValue)\<rparr>)
      in case configProperty plain configGlobals gid of
           None \<Rightarrow> Inr (entry None)
         | Some JUndefined \<Rightarrow> Inr (entry None)
         | Some raw \<Rightarrow>
             (case normalizeConfigGlobal raw of
                Inl e \<Rightarrow> Inl e
              | Inr configValue \<Rightarrow> Inr (entry (Some configValue))))"

definition assignSettings :: "global_entry \<Rightarrow> variable \<Rightarrow> variable" where
  "assignSettings e v =
     v\<lparr>eslintImplicitGlobalSetting := ge_configValue e,
       eslintExplicitGlobal := Some (ge_sourceComments e \<noteq> None),
       eslintExplicitGlobalComments := ge_sourceComments e,
       writeable := Some (ge_value e = Some Writable)\<rparr>"

text \<open>The body of the first loop after the constants: look the variable up or create it.\<close>

definition declareGlobal :: "string \<Rightarrow> global_entry \<Rightarrow> scope_state \<Rightarrow> scope_state" where
  "declareGlobal gid e s =
     (if ge_value e = Some Off then s
      else
        (case map_of (scope_set (globalScope s)) gid of
           Some a \<Rightarrow> s\<lparr>objects := updateVariable a (assignSettings e) (objects s)\<rparr>
         | None \<Rightarrow>
             (let a = length (variableObjects (objects s));
                  store1 = (objects s)\<lparr>variableObjects :=
                             variableObjects (objects s) @ [newVariable gid]\<rparr>;
                  scope1 = set_scope_set (AList.update gid a (scope_set (globalScope s)))
                             (set_variables (variables (globalScope s) @ [a]) (globalScope s))
              in \<lparr>globalScope = scope1,
                  objects = updateVariable a (assignSettings e) store1\<rparr>)))"

fun declareGlobals ::
  "bool \<Rightarrow> (string \<times> js_value) list \<Rightarrow> (string \<times> inline_global) list \<Rightarrow> string list
     \<Rightarrow> scope_state \<Rightarrow> error + scope_state"
where
  "declareGlobals plain cg ig [] s = Inr s"
| "declareGlobals plain cg ig (gid # ids) s =
     (case globalEntry plain cg ig gid of
        Inl e \<Rightarrow> Inl e
      | Inr entry \<Rightarrow> declareGlobals plain cg ig ids (declareGlobal gid entry s))"

text \<open>
  The filter over \<open>through\<close>: a reference whose name has a variable in the \<open>set\<close> is
  linked to the variable and dropped, the others are kept.
\<close>

fun resolveThrough ::
  "(string \<times> nat) list \<Rightarrow> nat list \<Rightarrow> object_store \<Rightarrow> nat list \<times> object_store"
where
  "resolveThrough st [] store = ([], store)"
| "resolveThrough st (r # rs) store =
     (case map_of st (node_name (ref_identifier (referenceObjects store ! r))) of
        Some a \<Rightarrow>
          resolveThrough st rs
            (updateVariable a (\<lambda>v. v\<lparr>var_references := var_references v @ [r]\<rparr>)
               (updateReference r (\<lambda>x. x\<lparr>ref_resolved := Some a\<rparr>) store))
      | None \<Rightarrow>
          (case resolveThrough st rs store of (kept, store') \<Rightarrow> (r # kept, store')))"

text \<open>The pruning of the \<open>implicit\<close> bookkeeping, for a scope that has it.\<close>

definition pruneImplicit ::
  "(string \<times> nat) list \<Rightarrow> object_store \<Rightarrow> implicit_info \<Rightarrow> implicit_info"
where
  "pruneImplicit st store im =
     \<lparr>implicit_variables =
        filter (\<lambda>v. map_of st (var_name (variableObjects store ! v)) = None)
          (implicit_variables im),
      implicit_set =
        fold (\<lambda>v s. if map_of st (var_name (variableObjects store ! v)) \<noteq> None
                     then AList.delete (var_name (variableObjects store ! v)) s else s)
          (implicit_variables im) (implicit_set im),
      implicit_left =
        map_option
          (filter (\<lambda>r. map_of st (node_name (ref_identifier (referenceObjects store ! r))) = None))
          (implicit_left im)\<rparr>"

definition addDeclaredGlobals ::
  "scope_state \<Rightarrow> (string \<times> js_value) list option \<Rightarrow> (string \<times> inline_global) list option
     \<Rightarrow> error + scope_state"
where
  "addDeclaredGlobals s configGlobals inlineGlobals =
     (let cg = (case configGlobals of None \<Rightarrow> [] | Some c \<Rightarrow> c);
          ig = (case inlineGlobals of None \<Rightarrow> [] | Some i \<Rightarrow> i)
      in case declareGlobals (configGlobals = None) cg ig
                (uniqueKeys (map fst cg @ map fst ig)) s of
           Inl e \<Rightarrow> Inl e
         | Inr s1 \<Rightarrow>
             (case resolveThrough (scope_set (globalScope s1)) (through (globalScope s1))
                     (objects s1) of
                (kept, store2) \<Rightarrow>
                  (let scope2 = set_through kept (globalScope s1);
                       scope3 = (case implicit scope2 of
                                   None \<Rightarrow> scope2
                                 | Some im \<Rightarrow>
                                     set_implicit
                                       (Some (pruneImplicit (scope_set scope2) store2 im))
                                       scope2)
                   in Inr \<lparr>globalScope = scope3, objects = store2\<rparr>)))"

section \<open>The rule class-methods-use-this: the stack of contexts\<close>

text \<open>
  The rule's \<open>stack\<close> is a JavaScript array of booleans; \<open>push\<close> and \<open>pop\<close> work at
  its end, so the top frame is the last element of the list.
\<close>

definition pushContext :: "bool list \<Rightarrow> bool list" where
  "pushContext stack = stack @ [False]"

text \<open>\<open>stack.pop()\<close> returns \<open>undefined\<close> (here \<open>None\<close>) on an empty array.\<close>

definition popContext :: "bool list \<Rightarrow> bool option \<times> bool list" where
  "popContext stack = (if stack = [] then (None, []) else (Some (last stack), butlast stack))"

definition markThisUsed :: "bool list \<Rightarrow> bool list" where
  "markThisUsed stack =
     (if length stack \<noteq> 0 then stack[length stack - 1 := True] else stack)"

section \<open>Traversal\<close>

text \<open>
  The AST as the traversal walks it: the properties of a node, the name of the property
  of its parent that holds it, and its children in the order of the visitor keys.
\<close>

datatype tree = Tree (tree_attrs: node_attrs) (tree_field: string) (tree_children: "tree list")

text \<open>
  A step of the traversal. A \<open>VisitNodeStep\<close> has its target node and its phase, 1 for
  entering and 2 for leaving; its arguments are the node and the node's parent, which
  the node carries. A \<open>CallMethodStep\<close> has the name of the event.
\<close>

datatype traversal_step = VisitNodeStep ast_node nat | CallMethodStep string

text \<open>
  Modelled from the spec: \<open>Traverser.traverse\<close> of the shared traverser, which is not
  among the sources: "for every node, an enter step and (after all descendants) a leave
  step, each carrying the node and its parent", siblings in source order. The
  \<open>enter\<close> callback of \<open>SourceCode.traverse\<close> assigns \<open>node.parent\<close> before it records
  the step, so the node of a step has its parent chain. The steps that the code path
  analyzer adds for an ESTree are \<open>CallMethodStep\<close>s between these; they are left out
  here, and the rule below has no handler for them.
\<close>

fun traverseNode :: "tree \<Rightarrow> ast_node option \<Rightarrow> traversal_step list" where
  "traverseNode (Tree a f cs) p =
     (let n = AstNode a (map_option tree_attrs (find (\<lambda>c. tree_field c = ''key'') cs)) f p
      in VisitNodeStep n 1 # concat (map (\<lambda>c. traverseNode c (Some n)) cs) @
         [VisitNodeStep n 2])"

definition SourceCode_traverse :: "tree \<Rightarrow> traversal_step list" where
  "SourceCode_traverse ast = traverseNode ast None"

section \<open>The rule class-methods-use-this\<close>

record rule_options =
  enforceForClassFields :: bool
  exceptMethods :: "string list"
  ignoreOverrideMethods :: bool
  ignoreClassesWithImplements :: "string option"

definition defaultOptions :: rule_options where
  "defaultOptions =
     \<lparr>enforceForClassFields = True, exceptMethods = [], ignoreOverrideMethods = False,
      ignoreClassesWithImplements = None\<rparr>"

text \<open>
  The functions of the rules' AST utilities that the rule calls are parameters of the
  model. \<open>getStaticStringValue\<close> returns a string or \<open>null\<close>.
\<close>

record rule_utils =
  getFunctionNameWithKind :: "ast_node \<Rightarrow> string"
  getFunctionHeadLoc :: "ast_node \<Rightarrow> source_location"
  getStaticStringValue :: "node_attrs \<Rightarrow> string option"

text \<open>What \<open>context.report\<close> receives.\<close>

record report =
  report_node :: ast_node
  report_loc :: source_location
  report_messageId :: string
  report_name :: string

record rule_state =
  stack :: "bool list"
  reports :: "report list"

definition isInstanceMethod :: "rule_options \<Rightarrow> ast_node \<Rightarrow> bool" where
  "isInstanceMethod opts node =
     (if node_type (attrs node) = ''MethodDefinition''
        then \<not> node_static (attrs node) \<and> node_kind (attrs node) \<noteq> ''constructor''
      else if node_type (attrs node) = ''AccessorProperty'' \<or>
              node_type (attrs node) = ''PropertyDefinition''
        then \<not> node_static (attrs node) \<and> enforceForClassFields opts
      else False)"

text \<open>
  \<open>node.parent.parent\<close> throws when the node has no parent; \<open>classNode\<close> can be
  \<open>undefined\<close>, and then \<open>classNode?.type\<close> is.
\<close>

definition hasImplements :: "ast_node \<Rightarrow> error + bool" where
  "hasImplements node =
     (case parent node of
        None \<Rightarrow> Inl (TypeError ''Cannot read properties of undefined (reading parent)'')
      | Some p \<Rightarrow>
          (case parent p of
             None \<Rightarrow> Inr False
           | Some classNode \<Rightarrow>
               Inr (node_type (attrs classNode) = ''ClassDeclaration'' \<and>
                    node_implements (attrs classNode) > 0)))"

definition isIncludedInstanceMethod ::
  "rule_utils \<Rightarrow> rule_options \<Rightarrow> ast_node \<Rightarrow> error + bool"
where
  "isIncludedInstanceMethod utils opts node =
     (if isInstanceMethod opts node then
        if node_computed (attrs node) then Inr True
        else if ignoreOverrideMethods opts \<and> node_override (attrs node) then Inr False
        else
          (case (if ignoreClassesWithImplements opts \<noteq> None \<and>
                    ignoreClassesWithImplements opts \<noteq> Some []
                   then hasImplements node else Inr False) of
             Inl e \<Rightarrow> Inl e
           | Inr implementsInterfaces \<Rightarrow>
               if implementsInterfaces \<and> ignoreClassesWithImplements opts = Some ''all''
                 then Inr False
               else
               (case key node of
                  None \<Rightarrow> Inl (TypeError ''Cannot read properties of undefined (reading type)'')
                | Some k \<Rightarrow>
                    if implementsInterfaces \<and>
                       ignoreClassesWithImplements opts = Some ''public-fields'' \<and>
                       node_type k \<noteq> ''PrivateIdentifier'' \<and>
                       (node_accessibility (attrs node) = None \<or>
                        node_accessibility (attrs node) = Some [] \<or>
                        node_accessibility (attrs node) = Some ''public'')
                      then Inr False
                    else
                      (let hashIfNeeded =
                             (if node_type k = ''PrivateIdentifier'' then ''#'' else []);
                           name =
                             (if node_type k = ''Literal''
                                then (case getStaticStringValue utils k of
                                        None \<Rightarrow> ''null'' | Some s \<Rightarrow> s)
                                else node_name k)
                       in Inr (hashIfNeeded @ name \<notin> set (exceptMethods opts)))))
      else Inr False)"

definition enterFunction :: "rule_state \<Rightarrow> rule_state" where
  "enterFunction st = st\<lparr>stack := pushContext (stack st)\<rparr>"

text \<open>
  \<open>exitFunction\<close> pops the flag; \<open>undefined\<close> from an empty stack is falsy. The read of
  \<open>node.parent.type\<close> throws for a node without a parent.
\<close>

definition exitFunction ::
  "rule_utils \<Rightarrow> rule_options \<Rightarrow> ast_node \<Rightarrow> rule_state \<Rightarrow> error + rule_state"
where
  "exitFunction utils opts node st =
     (case popContext (stack st) of
        (methodUsesThis, stack') \<Rightarrow>
          (case parent node of
             None \<Rightarrow> Inl (TypeError ''Cannot read properties of undefined (reading type)'')
           | Some p \<Rightarrow>
               (case isIncludedInstanceMethod utils opts p of
                  Inl e \<Rightarrow> Inl e
                | Inr included \<Rightarrow>
                    if included \<and> methodUsesThis \<noteq> Some True
                      then Inr \<lparr>stack = stack',
                                reports = reports st @
                                  [\<lparr>report_node = node,
                                    report_loc = getFunctionHeadLoc utils node,
                                    report_messageId = ''missingThis'',
                                    report_name = getFunctionNameWithKind utils node\<rparr>]\<rparr>
                      else Inr \<lparr>stack = stack', reports = reports st\<rparr>)))"

text \<open>
  Modelled from the spec: the dispatch of a step to the handlers whose selector matches
  the node, which the linter does and which is not among the sources. A selector with a
  type matches a node of that type, \<open>P > *.key\<close> a node that is the \<open>key\<close> of a parent of
  type P, and \<open>P > ArrowFunctionExpression.value\<close> an arrow function that is the \<open>value\<close>
  of such a parent. When two selectors match the same node on exit, the handler of the
  less specific one, the type alone, runs first.
\<close>

definition isFunctionNode :: "ast_node \<Rightarrow> bool" where
  "isFunctionNode n \<longleftrightarrow>
     node_type (attrs n) = ''FunctionDeclaration'' \<or> node_type (attrs n) = ''FunctionExpression''"

definition isFieldNode :: "ast_node \<Rightarrow> bool" where
  "isFieldNode n \<longleftrightarrow>
     node_type (attrs n) = ''AccessorProperty'' \<or> node_type (attrs n) = ''PropertyDefinition''"

definition childOfField :: "string \<Rightarrow> ast_node \<Rightarrow> bool" where
  "childOfField f n \<longleftrightarrow>
     field n = f \<and> (case parent n of None \<Rightarrow> False | Some p \<Rightarrow> isFieldNode p)"

definition isArrowValue :: "rule_options \<Rightarrow> ast_node \<Rightarrow> bool" where
  "isArrowValue opts n \<longleftrightarrow>
     enforceForClassFields opts \<and> node_type (attrs n) = ''ArrowFunctionExpression'' \<and>
     childOfField ''value'' n"

definition enterNode :: "rule_options \<Rightarrow> ast_node \<Rightarrow> rule_state \<Rightarrow> rule_state" where
  "enterNode opts n st =
     (if isFunctionNode n then enterFunction st
      else if node_type (attrs n) = ''StaticBlock'' then st\<lparr>stack := pushContext (stack st)\<rparr>
      else if node_type (attrs n) = ''ThisExpression'' \<or> node_type (attrs n) = ''Super''
        then st\<lparr>stack := markThisUsed (stack st)\<rparr>
      else if isArrowValue opts n then enterFunction st
      else st)"

definition leaveNode ::
  "rule_utils \<Rightarrow> rule_options \<Rightarrow> ast_node \<Rightarrow> rule_state \<Rightarrow> error + rule_state"
where
  "leaveNode utils opts n st =
     (case (if isFunctionNode n then exitFunction utils opts n st
            else if isFieldNode n \<or> node_type (attrs n) = ''StaticBlock''
              then Inr (st\<lparr>stack := snd (popContext (stack st))\<rparr>)
            else if isArrowValue opts n then exitFunction utils opts n st
            else Inr st) of
        Inl e \<Rightarrow> Inl e
      | Inr st1 \<Rightarrow>
          if childOfField ''key'' n then Inr (st1\<lparr>stack := pushContext (stack st1)\<rparr>)
          else Inr st1)"

fun applyStep ::
  "rule_utils \<Rightarrow> rule_options \<Rightarrow> traversal_step \<Rightarrow> rule_state \<Rightarrow> error + rule_state"
where
  "applyStep utils opts (VisitNodeStep n phase) st =
     (if phase = 1 then Inr (enterNode opts n st) else leaveNode utils opts n st)"
| "applyStep utils opts (CallMethodStep name) st = Inr st"

fun runSteps ::
  "rule_utils \<Rightarrow> rule_options \<Rightarrow> traversal_step list \<Rightarrow> rule_state \<Rightarrow> error + rule_state"
where
  "runSteps utils opts [] st = Inr st"
| "runSteps utils opts (x # xs) st =
     (case applyStep utils opts x st of
        Inl e \<Rightarrow> Inl e
      | Inr st' \<Rightarrow> runSteps utils opts xs st')"

text \<open>The rule on an AST: the steps of the traversal, from the empty stack.\<close>

definition runRule :: "rule_utils \<Rightarrow> rule_options \<Rightarrow> tree \<Rightarrow> error + rule_state" where
  "runRule utils opts ast =
     runSteps utils opts (SourceCode_traverse ast) \<lparr>stack = [], reports = []\<rparr>"

section \<open>Definitions for the properties\<close>

subsection \<open>The position methods\<close>

text \<open>Example input: a text of three lines, the first ended by LF, the second by CR LF.\<close>

definition example_text :: code_units where
  "example_text = [97, 10, 98, 13, 10, 99]"

text \<open>
  The words of the claim about \<open>getIndexFromLoc\<close>: the start of a line, the end of a
  line (the start of the next line, or the length of the text for the last line), the
  position at the end of the file on the last line, and the locations that are out of
  range.
\<close>

definition lineStartIndex :: "source_code \<Rightarrow> int \<Rightarrow> int" where
  "lineStartIndex sc l = int (lineStartIndices sc ! nat (l - 1))"

definition lineEndIndex :: "source_code \<Rightarrow> int \<Rightarrow> int" where
  "lineEndIndex sc l =
     (if l = int (length (lineStartIndices sc)) then int (length (source_text sc))
      else int (lineStartIndices sc ! nat l))"

definition atEndOfFile :: "source_code \<Rightarrow> position \<Rightarrow> bool" where
  "atEndOfFile sc loc \<longleftrightarrow>
     line loc = int (length (lineStartIndices sc)) \<and>
     lineStartIndex sc (line loc) + column loc = int (length (source_text sc))"

definition locOutOfRange :: "source_code \<Rightarrow> position \<Rightarrow> bool" where
  "locOutOfRange sc loc \<longleftrightarrow>
     line loc \<le> 0 \<or> line loc > int (length (lineStartIndices sc)) \<or> column loc < 0 \<or>
     (lineStartIndex sc (line loc) + column loc \<ge> lineEndIndex sc (line loc) \<and>
      \<not> atEndOfFile sc loc)"

subsection \<open>addDeclaredGlobals\<close>

text \<open>
  The first loop for a list of names with the constants of their iterations, when none of
  the normalizations throws.
\<close>

definition declareAll :: "(string \<times> global_entry) list \<Rightarrow> scope_state \<Rightarrow> scope_state" where
  "declareAll es s = fold (\<lambda>(gid, e). declareGlobal gid e) es s"

abbreviation lookupVar :: "scope_state \<Rightarrow> string \<Rightarrow> nat option" where
  "lookupVar s \<equiv> map_of (scope_set (globalScope s))"

abbreviation varHeap :: "scope_state \<Rightarrow> variable list" where
  "varHeap s \<equiv> variableObjects (objects s)"

text \<open>The last entry that writes to an address, for a given lookup.\<close>

definition lastWriter ::
  "(string \<times> global_entry) list \<Rightarrow> (string \<Rightarrow> nat option) \<Rightarrow> nat \<Rightarrow> global_entry option"
where
  "lastWriter es lk l =
     fold (\<lambda>(gid, e) acc. if ge_value e \<noteq> Some Off \<and> lk gid = Some l then Some e else acc)
       es None"

text \<open>
  A state is settled for a list of entries when every name that is not turned off has a
  variable in the \<open>set\<close>, and every variable of the store already has the settings of
  the last entry that writes to it.
\<close>

definition allDeclared :: "(string \<times> global_entry) list \<Rightarrow> scope_state \<Rightarrow> bool" where
  "allDeclared es s \<longleftrightarrow>
     (\<forall>(gid, e) \<in> set es. ge_value e \<noteq> Some Off \<longrightarrow> lookupVar s gid \<noteq> None)"

definition settled :: "(string \<times> global_entry) list \<Rightarrow> scope_state \<Rightarrow> bool" where
  "settled es s \<longleftrightarrow>
     allDeclared es s \<and>
     (\<forall>l < length (varHeap s).
        case lastWriter es (lookupVar s) l of
          None \<Rightarrow> True
        | Some e \<Rightarrow> assignSettings e (varHeap s ! l) = varHeap s ! l)"

text \<open>The writes alone, for a lookup that does not change.\<close>

definition writeAll ::
  "(string \<times> global_entry) list \<Rightarrow> (string \<Rightarrow> nat option) \<Rightarrow> variable list \<Rightarrow> variable list"
where
  "writeAll es lk h =
     fold (\<lambda>(gid, e) h. if ge_value e = Some Off then h
                         else case lk gid of None \<Rightarrow> h
                              | Some a \<Rightarrow> h[a := assignSettings e (h ! a)]) es h"

text \<open>
  Two stores of variables that differ in the references of the variables only, and two
  stores of references whose identifiers are the same.
\<close>

definition sameButReferences :: "variable list \<Rightarrow> variable list \<Rightarrow> bool" where
  "sameButReferences h h' \<longleftrightarrow>
     length h' = length h \<and> (\<forall>l. \<exists>refs. h' ! l = (h ! l)\<lparr>var_references := refs\<rparr>)"

definition sameIdentifiers :: "reference list \<Rightarrow> reference list \<Rightarrow> bool" where
  "sameIdentifiers R R' \<longleftrightarrow>
     length R' = length R \<and> (\<forall>r. ref_identifier (R' ! r) = ref_identifier (R ! r))"

abbreviation refName :: "object_store \<Rightarrow> nat \<Rightarrow> string" where
  "refName store r \<equiv> node_name (ref_identifier (referenceObjects store ! r))"

text \<open>The part of \<open>addDeclaredGlobals\<close> after the first loop.\<close>

definition finishGlobals :: "scope_state \<Rightarrow> scope_state" where
  "finishGlobals s1 =
     (case resolveThrough (scope_set (globalScope s1)) (through (globalScope s1))
             (objects s1) of
        (kept, store2) \<Rightarrow>
          (let scope2 = set_through kept (globalScope s1);
               scope3 = (case implicit scope2 of
                           None \<Rightarrow> scope2
                         | Some im \<Rightarrow>
                             set_implicit
                               (Some (pruneImplicit (scope_set scope2) store2 im))
                               scope2)
           in \<lparr>globalScope = scope3, objects = store2\<rparr>))"

text \<open>
  Example inputs: a global scope that declares \<open>a\<close> and has two unresolved references,
  to \<open>a\<close> and to \<open>c\<close>; the configuration declares \<open>b\<close> and turns \<open>d\<close> off, a
  comment declares \<open>a\<close> writable.
\<close>

definition example_scope_state :: scope_state where
  "example_scope_state =
     \<lparr>globalScope = Scope ''global'' [] [0] [(''a'', 0)] [0, 1] None,
      objects =
        \<lparr>variableObjects = [newVariable ''a''],
         referenceObjects =
           [\<lparr>ref_identifier = plain_node 10 ''Identifier'' ''a'', ref_resolved = None\<rparr>,
            \<lparr>ref_identifier = plain_node 12 ''Identifier'' ''c'', ref_resolved = None\<rparr>]\<rparr>\<rparr>"

definition example_configGlobals :: "(string \<times> js_value) list" where
  "example_configGlobals = [(''b'', JString ''readonly''), (''d'', JString ''off'')]"

definition example_inlineGlobals :: "(string \<times> inline_global) list" where
  "example_inlineGlobals = [(''a'', \<lparr>ig_comments = [], ig_value = Writable\<rparr>)]"

definition example_scope_state_after :: scope_state where
  "example_scope_state_after =
     \<lparr>globalScope = Scope ''global'' [] [0, 1] [(''a'', 0), (''b'', 1)] [1] None,
      objects =
        \<lparr>variableObjects =
           [\<lparr>var_name = ''a'', var_defs = [], var_references = [0],
             eslintImplicitGlobalSetting = None, eslintExplicitGlobal = Some True,
             eslintExplicitGlobalComments = Some [], writeable = Some True\<rparr>,
            \<lparr>var_name = ''b'', var_defs = [], var_references = [],
             eslintImplicitGlobalSetting = Some Readonly, eslintExplicitGlobal = Some False,
             eslintExplicitGlobalComments = None, writeable = Some False\<rparr>],
         referenceObjects =
           [\<lparr>ref_identifier = plain_node 10 ''Identifier'' ''a'', ref_resolved = Some 0\<rparr>,
            \<lparr>ref_identifier = plain_node 12 ''Identifier'' ''c'', ref_resolved = None\<rparr>]\<rparr>\<rparr>"

text \<open>The same scope after a call that omits the configured globals.\<close>

definition example_scope_state_inline :: scope_state where
  "example_scope_state_inline =
     \<lparr>globalScope = Scope ''global'' [] [0] [(''a'', 0)] [1] None,
      objects =
        \<lparr>variableObjects =
           [\<lparr>var_name = ''a'', var_defs = [], var_references = [0],
             eslintImplicitGlobalSetting = None, eslintExplicitGlobal = Some True,
             eslintExplicitGlobalComments = Some [], writeable = Some True\<rparr>],
         referenceObjects =
           [\<lparr>ref_identifier = plain_node 10 ''Identifier'' ''a'', ref_resolved = Some 0\<rparr>,
            \<lparr>ref_identifier = plain_node 12 ''Identifier'' ''c'', ref_resolved = None\<rparr>]\<rparr>\<rparr>"

text \<open>A configured value that is already one of the three normalized settings.\<close>

definition normalizedSetting :: "js_value \<Rightarrow> bool" where
  "normalizedSetting v \<longleftrightarrow>
     v = JString ''off'' \<or> v = JString ''readonly'' \<or> v = JString ''writable''"

subsection \<open>isSpaceBetween\<close>

text \<open>
  A range \<open>[start, end)\<close> does not end before it starts; two ranges overlap when they
  have an offset in common.
\<close>

definition wellFormedRange :: "entity \<Rightarrow> bool" where
  "wellFormedRange e \<longleftrightarrow> fst (ent_range e) \<le> snd (ent_range e)"

definition rangesOverlap :: "entity \<Rightarrow> entity \<Rightarrow> bool" where
  "rangesOverlap a b \<longleftrightarrow>
     fst (ent_range a) < snd (ent_range b) \<and> fst (ent_range b) < snd (ent_range a)"

text \<open>
  The walk from a token meets the final token, or a \<open>null\<close> from \<open>getTokenAfter\<close>,
  within n steps.
\<close>

fun walkEnds :: "token_store \<Rightarrow> nat \<Rightarrow> entity \<Rightarrow> entity \<Rightarrow> bool" where
  "walkEnds ts 0 finalToken currentToken \<longleftrightarrow> ent_id currentToken = ent_id finalToken"
| "walkEnds ts (Suc n) finalToken currentToken \<longleftrightarrow>
     ent_id currentToken = ent_id finalToken \<or>
     (case getTokenAfter ts currentToken of
        None \<Rightarrow> True
      | Some nextToken \<Rightarrow> walkEnds ts n finalToken nextToken)"

text \<open>Example inputs: three tokens, the second right after the first, then a gap.\<close>

definition example_token :: "nat \<Rightarrow> nat \<Rightarrow> nat \<Rightarrow> entity" where
  "example_token i s e =
     \<lparr>ent_id = i, ent_type = ''Punctuator'', ent_range = (s, e), ent_value = []\<rparr>"

definition example_token_store :: token_store where
  "example_token_store =
     \<lparr>getLastToken = Some, getFirstToken = Some,
      getTokenAfter = (\<lambda>t.
        if ent_id t = 1 then Some (example_token 2 1 2)
        else if ent_id t = 2 then Some (example_token 3 3 4)
        else None)\<rparr>"

subsection \<open>getScope and isGlobalReference\<close>

text \<open>Example inputs: a chain of nodes and a small global scope.\<close>

definition example_program_node :: ast_node where
  "example_program_node = AstNode (plain_node 1 ''Program'' []) None [] None"

definition example_identifier_node :: ast_node where
  "example_identifier_node =
     AstNode (plain_node 7 ''Identifier'' ''window'') None ''expression''
       (Some (AstNode (plain_node 2 ''ExpressionStatement'' []) None ''body''
          (Some example_program_node)))"

definition example_global_scope :: scope where
  "example_global_scope = Scope ''global'' [] [0] [(''window'', 0)] [] None"

definition example_scope_manager :: scope_manager where
  "example_scope_manager =
     \<lparr>scopes = [example_global_scope], acquire = (\<lambda>i inner. None)\<rparr>"

definition example_store :: object_store where
  "example_store =
     \<lparr>variableObjects =
        [\<lparr>var_name = ''window'', var_defs = [], var_references = [0],
          eslintImplicitGlobalSetting = Some Readonly, eslintExplicitGlobal = Some False,
          eslintExplicitGlobalComments = None, writeable = Some False\<rparr>],
      referenceObjects =
        [\<lparr>ref_identifier = plain_node 7 ''Identifier'' ''window'', ref_resolved = Some 0\<rparr>]\<rparr>"

text \<open>
  The words of the claim about \<open>isGlobalReference\<close>: the node is an identifier, its name
  has a variable in the \<open>set\<close> of the first scope, the variable has no definitions, and
  one of the variable's references has this node as its identifier.
\<close>

definition globalReference :: "scope_manager \<Rightarrow> object_store \<Rightarrow> ast_node \<Rightarrow> bool" where
  "globalReference m store n \<longleftrightarrow>
     node_type (attrs n) = ''Identifier'' \<and>
     (case map_of (scope_set (hd (scopes m))) (node_name (attrs n)) of
        None \<Rightarrow> False
      | Some v \<Rightarrow>
          var_defs (variableObjects store ! v) = [] \<and>
          (\<exists>r \<in> set (var_references (variableObjects store ! v)).
             node_id (ref_identifier (referenceObjects store ! r)) = node_id (attrs n)))"

text \<open>No node of the parent chain, from the node itself, has a scope in the scope manager.\<close>

fun noScopeOnChain :: "scope_manager \<Rightarrow> bool \<Rightarrow> ast_node \<Rightarrow> bool" where
  "noScopeOnChain m inner (AstNode a k f p) \<longleftrightarrow>
     acquire m (node_id a) inner = None \<and>
     (case p of None \<Rightarrow> True | Some n \<Rightarrow> noScopeOnChain m inner n)"

subsection \<open>The directive methods\<close>

text \<open>
  A comment that is not the shebang, carries the label \<open>eslint-disable-line\<close> and has a
  location that starts and ends on different lines; and the problem for such a comment.
\<close>

definition spansMultipleLines :: "comment \<Rightarrow> bool" where
  "spansMultipleLines c \<longleftrightarrow> line (loc_start (com_loc c)) \<noteq> line (loc_end (com_loc c))"

definition multilineDisableLine :: "'cfg collaborators \<Rightarrow> comment \<Rightarrow> bool" where
  "multilineDisableLine ext c \<longleftrightarrow>
     com_type c \<noteq> ''Shebang'' \<and>
     map_option dir_label (parseDirective ext (com_value c)) = Some ''eslint-disable-line'' \<and>
     spansMultipleLines c"

definition multilineProblem :: "comment \<Rightarrow> problem" where
  "multilineProblem c =
     \<lparr>ruleId = None,
      message = ''eslint-disable-line comment should not span multiple lines.'',
      prob_loc = com_loc c\<rparr>"

text \<open>Example inputs: a parser that knows three comments, and the comments.\<close>

definition example_collaborators :: "unit collaborators" where
  "example_collaborators =
     \<lparr>parseDirective = (\<lambda>s.
        if s = ''eslint-disable-line no-alert''
          then Some \<lparr>dir_label = ''eslint-disable-line'', dir_value = ''no-alert'',
                     dir_justification = []\<rparr>
        else if s = ''eslint-disable no-eval''
          then Some \<lparr>dir_label = ''eslint-disable'', dir_value = ''no-eval'',
                     dir_justification = []\<rparr>
        else if s = ''globals foo: bar''
          then Some \<lparr>dir_label = ''globals'', dir_value = ''foo: bar'',
                     dir_justification = []\<rparr>
        else None),
      parseStringConfig = (\<lambda>s. if s = ''foo: bar'' then [(''foo'', JString ''bar'')] else []),
      parseListConfig = (\<lambda>s. []),
      parseJSONLikeConfig = (\<lambda>s. Inr ()),
      directivesPattern_test = (\<lambda>l. l \<in> set [''eslint'', ''eslint-enable'', ''eslint-disable'',
        ''eslint-disable-line'', ''eslint-disable-next-line'', ''exported'', ''global'',
        ''globals''])\<rparr>"

definition example_multiline_comment :: comment where
  "example_multiline_comment =
     \<lparr>com_type = ''Block'', com_value = ''eslint-disable-line no-alert'',
      com_loc = \<lparr>loc_start = \<lparr>line = 1, column = 0\<rparr>, loc_end = \<lparr>line = 2, column = 11\<rparr>\<rparr>\<rparr>"

definition example_disable_comment :: comment where
  "example_disable_comment =
     \<lparr>com_type = ''Block'', com_value = ''eslint-disable no-eval'',
      com_loc = \<lparr>loc_start = \<lparr>line = 3, column = 0\<rparr>, loc_end = \<lparr>line = 3, column = 28\<rparr>\<rparr>\<rparr>"

definition example_globals_comment :: comment where
  "example_globals_comment =
     \<lparr>com_type = ''Block'', com_value = ''globals foo: bar'',
      com_loc = \<lparr>loc_start = \<lparr>line = 1, column = 0\<rparr>, loc_end = \<lparr>line = 1, column = 22\<rparr>\<rparr>\<rparr>"

subsection \<open>The rule\<close>

text \<open>Builders for example trees: a node without children, and the properties of a method.\<close>

definition leaf :: "nat \<Rightarrow> string \<Rightarrow> string \<Rightarrow> string \<Rightarrow> tree" where
  "leaf i t name f = Tree (plain_node i t name) f []"

definition method_attrs :: "nat \<Rightarrow> bool \<Rightarrow> node_attrs" where
  "method_attrs i static =
     (plain_node i ''MethodDefinition'' [])\<lparr>node_static := static, node_kind := ''method''\<rparr>"

text \<open>
  The AST of the source \<open>class A { foo() { return 1; } bar() { return this.x; } }\<close>,
  with the children of every node in the order of the visitor keys.
\<close>

definition example_class_ast :: tree where
  "example_class_ast =
     Tree (plain_node 1 ''Program'' []) [] [
       Tree (plain_node 2 ''ClassDeclaration'' []) ''body'' [
         leaf 3 ''Identifier'' ''A'' ''id'',
         Tree (plain_node 4 ''ClassBody'' []) ''body'' [
           Tree (method_attrs 5 False) ''body'' [
             leaf 6 ''Identifier'' ''foo'' ''key'',
             Tree (plain_node 7 ''FunctionExpression'' []) ''value'' [
               Tree (plain_node 8 ''BlockStatement'' []) ''body'' [
                 Tree (plain_node 9 ''ReturnStatement'' []) ''body'' [
                   leaf 10 ''Literal'' [] ''argument'']]]],
           Tree (method_attrs 11 False) ''body'' [
             leaf 12 ''Identifier'' ''bar'' ''key'',
             Tree (plain_node 13 ''FunctionExpression'' []) ''value'' [
               Tree (plain_node 14 ''BlockStatement'' []) ''body'' [
                 Tree (plain_node 15 ''ReturnStatement'' []) ''body'' [
                   Tree (plain_node 16 ''MemberExpression'' []) ''argument'' [
                     leaf 17 ''ThisExpression'' [] ''object'',
                     leaf 18 ''Identifier'' ''x'' ''property'']]]]]]]]"

text \<open>Example utilities: the name of a function is the name of its method.\<close>

definition example_utils :: rule_utils where
  "example_utils = \<lparr>getFunctionNameWithKind = (\<lambda>n. case parent n of None \<Rightarrow> ''function'' | Some p \<Rightarrow> (case key p of None \<Rightarrow> ''function'' | Some k \<Rightarrow> ''method '' @ node_name k)),
     getFunctionHeadLoc = (\<lambda>n. \<lparr>loc_start = \<lparr>line = 1, column = 0\<rparr>, loc_end = \<lparr>line = 1, column = 0\<rparr>\<rparr>),
     getStaticStringValue = (\<lambda>k. None)\<rparr>"

text \<open>
  A subtree uses \<open>this\<close> when it has a \<open>ThisExpression\<close> or a \<open>Super\<close> that is not inside
  a function expression or function declaration of the subtree. A subtree is free of
  class members when it has no method, field, accessor or static block.
\<close>

fun usesThis :: "tree \<Rightarrow> bool" where
  "usesThis (Tree a f cs) \<longleftrightarrow>
     node_type a = ''ThisExpression'' \<or> node_type a = ''Super'' \<or>
     (node_type a \<noteq> ''FunctionDeclaration'' \<and> node_type a \<noteq> ''FunctionExpression'' \<and>
      list_ex usesThis cs)"

definition isMemberType :: "string \<Rightarrow> bool" where
  "isMemberType t \<longleftrightarrow>
     t = ''MethodDefinition'' \<or> t = ''PropertyDefinition'' \<or> t = ''AccessorProperty''"

fun classFree :: "tree \<Rightarrow> bool" where
  "classFree (Tree a f cs) \<longleftrightarrow>
     \<not> isMemberType (node_type a) \<and> node_type a \<noteq> ''StaticBlock'' \<and> list_all classFree cs"

text \<open>The state after a subtree: the top frame is marked when the subtree uses \<open>this\<close>.\<close>

definition afterBody :: "bool \<Rightarrow> rule_state \<Rightarrow> rule_state" where
  "afterBody used st = st\<lparr>stack := (if used then markThisUsed (stack st) else stack st)\<rparr>"

text \<open>
  A class declaration from its members, and a method from its description: identities,
  the \<open>static\<close> flag, the name of its identifier key, and the children of its function
  expression. The nodes of the steps carry their parent chain, so the nodes of the
  class are named too.
\<close>

record method_desc =
  md_id :: nat
  md_static :: bool
  md_keyId :: nat
  md_name :: string
  md_fnId :: nat
  md_body :: "tree list"

definition classMethod :: "method_desc \<Rightarrow> tree" where
  "classMethod m =
     Tree (method_attrs (md_id m) (md_static m)) ''body''
       [leaf (md_keyId m) ''Identifier'' (md_name m) ''key'',
        Tree (plain_node (md_fnId m) ''FunctionExpression'' []) ''value'' (md_body m)]"

definition classDeclaration :: "tree list \<Rightarrow> tree" where
  "classDeclaration members =
     Tree (plain_node 1 ''Program'' []) [] [
       Tree (plain_node 2 ''ClassDeclaration'' []) ''body'' [
         leaf 3 ''Identifier'' ''A'' ''id'',
         Tree (plain_node 4 ''ClassBody'' []) ''body'' members]]"

definition programNode :: ast_node where
  "programNode = AstNode (plain_node 1 ''Program'' []) None [] None"

definition classDeclarationNode :: ast_node where
  "classDeclarationNode =
     AstNode (plain_node 2 ''ClassDeclaration'' []) None ''body'' (Some programNode)"

definition classBodyNode :: ast_node where
  "classBodyNode =
     AstNode (plain_node 4 ''ClassBody'' []) None ''body'' (Some classDeclarationNode)"

definition methodNode :: "method_desc \<Rightarrow> ast_node \<Rightarrow> ast_node" where
  "methodNode m p =
     AstNode (method_attrs (md_id m) (md_static m))
       (Some (plain_node (md_keyId m) ''Identifier'' (md_name m))) ''body'' (Some p)"

definition functionNode :: "method_desc \<Rightarrow> ast_node \<Rightarrow> ast_node" where
  "functionNode m p =
     AstNode (plain_node (md_fnId m) ''FunctionExpression'' [])
       (map_option tree_attrs (find (\<lambda>c. tree_field c = ''key'') (md_body m))) ''value''
       (Some (methodNode m p))"

definition missingThis :: "rule_utils \<Rightarrow> ast_node \<Rightarrow> report" where
  "missingThis utils node =
     \<lparr>report_node = node, report_loc = getFunctionHeadLoc utils node,
      report_messageId = ''missingThis'',
      report_name = getFunctionNameWithKind utils node\<rparr>"

definition unusedThis :: "method_desc \<Rightarrow> bool" where
  "unusedThis m \<longleftrightarrow> \<not> md_static m \<and> \<not> list_ex usesThis (md_body m)"

definition example_foo :: method_desc where
  "example_foo =
     \<lparr>md_id = 5, md_static = False, md_keyId = 6, md_name = ''foo'', md_fnId = 7,
      md_body = [
        Tree (plain_node 8 ''BlockStatement'' []) ''body'' [
          Tree (plain_node 9 ''ReturnStatement'' []) ''body'' [
            leaf 10 ''Literal'' [] ''argument'']]]\<rparr>"

definition example_bar :: method_desc where
  "example_bar =
     \<lparr>md_id = 11, md_static = False, md_keyId = 12, md_name = ''bar'', md_fnId = 13,
      md_body = [
        Tree (plain_node 14 ''BlockStatement'' []) ''body'' [
          Tree (plain_node 15 ''ReturnStatement'' []) ''body'' [
            Tree (plain_node 16 ''MemberExpression'' []) ''argument'' [
              leaf 17 ''ThisExpression'' [] ''object'',
              leaf 18 ''Identifier'' ''x'' ''property'']]]]\<rparr>"

definition reportedMethodName :: "report \<Rightarrow> string option" where
  "reportedMethodName r =
     (case parent (report_node r) of
        None \<Rightarrow> None
      | Some m \<Rightarrow> map_option node_name (key m))"

text \<open>Example inputs: a static method, and a method whose only \<open>this\<close> is in a nested function.\<close>

definition example_static :: method_desc where
  "example_static =
     \<lparr>md_id = 5, md_static = True, md_keyId = 6, md_name = ''make'', md_fnId = 7,
      md_body = [Tree (plain_node 8 ''BlockStatement'' []) ''body'' []]\<rparr>"

definition example_nested :: method_desc where
  "example_nested =
     \<lparr>md_id = 19, md_static = False, md_keyId = 20, md_name = ''b'', md_fnId = 21,
      md_body = [
        Tree (plain_node 22 ''BlockStatement'' []) ''body'' [
          Tree (plain_node 23 ''ExpressionStatement'' []) ''body'' [
            Tree (plain_node 24 ''FunctionExpression'' []) ''expression'' [
              Tree (plain_node 25 ''BlockStatement'' []) ''body'' [
                Tree (plain_node 26 ''ExpressionStatement'' []) ''body'' [
                  leaf 27 ''ThisExpression'' [] ''expression'']]]]]]\<rparr>"

section \<open>Properties of the position methods\<close>

lemma sorted_wrt_less_le_last:
  "sorted_wrt (<) (xs :: nat list) \<Longrightarrow> x \<in> set xs \<Longrightarrow> x \<le> last xs"
  by (induction xs) (auto simp: less_imp_le)

lemma splitLoop_inv:
  assumes "lsi \<noteq> []" "sorted_wrt (<) lsi" "last lsi = lastIndex" "lastIndex \<le> length t"
    "hd lsi = 0" "Suc (length ls) = length lsi"
    "splitLoop t lastIndex ls lsi = (L, S)"
  shows "S \<noteq> [] \<and> sorted_wrt (<) S \<and> hd S = 0 \<and> last S \<le> length t \<and>
         length L = length S \<and> L \<noteq> [] \<and> length (last L) = length t - last S"
  using assms
proof (induction t lastIndex ls lsi rule: splitLoop.induct)
  case (1 t lastIndex ls lsi)
  show ?case
  proof (cases "lineEndingPattern_exec t lastIndex")
    case None
    with "1.prems" show ?thesis by auto
  next
    case (Some m)
    obtain idx len where m: "m = (idx, len)" by (cases m)
    note b = lineEndingPattern_exec_bounds[OF Some[unfolded m]]
    have "\<forall>x \<in> set lsi. x \<le> last lsi"
      using "1.prems"(2) sorted_wrt_less_le_last by blast
    then have sorted': "sorted_wrt (<) (lsi @ [idx + len])"
      using "1.prems" b by (auto simp: sorted_wrt_append)
    have "splitLoop t (idx + len) (ls @ [slice t (last lsi) idx]) (lsi @ [idx + len]) = (L, S)"
      using "1.prems"(7) Some m by simp
    from "1.IH"[OF Some m[symmetric] _ sorted' _ _ _ _ this]
    show ?thesis using "1.prems" b by (auto simp: hd_append)
  qed
qed

lemma SourceCode_new_inv:
  assumes "sc = SourceCode_new t0 b"
  shows "lineStartIndices sc \<noteq> [] \<and> sorted_wrt (<) (lineStartIndices sc) \<and>
         hd (lineStartIndices sc) = 0 \<and> last (lineStartIndices sc) \<le> length (source_text sc) \<and>
         length (lines sc) = length (lineStartIndices sc) \<and> lines sc \<noteq> [] \<and>
         length (last (lines sc)) = length (source_text sc) - last (lineStartIndices sc)"
proof -
  define t where "t = (if (case t0 of [] \<Rightarrow> False | c # _ \<Rightarrow> c = 0xFEFF) then drop 1 t0 else t0)"
  obtain L S where LS: "splitLoop t 0 [] [0] = (L, S)" by (cases "splitLoop t 0 [] [0]")
  have sc: "source_text sc = t" "lines sc = L" "lineStartIndices sc = S"
    using assms LS by (simp_all add: SourceCode_new_def t_def Let_def)
  from splitLoop_inv[OF _ _ _ _ _ _ LS] show ?thesis
    by (simp add: sc)
qed

lemma findLineNumberLoop_correct:
  assumes "sorted lsi" "low \<le> high" "high \<le> length lsi"
    "\<forall>i < low. int (lsi ! i) \<le> target"
    "\<forall>i. high \<le> i \<and> i < length lsi \<longrightarrow> target < int (lsi ! i)"
  shows "low \<le> findLineNumberLoop lsi target low high \<and>
         findLineNumberLoop lsi target low high \<le> high \<and>
         (\<forall>i < findLineNumberLoop lsi target low high. int (lsi ! i) \<le> target) \<and>
         (\<forall>i. findLineNumberLoop lsi target low high \<le> i \<and> i < length lsi \<longrightarrow> target < int (lsi ! i))"
  using assms
proof (induction lsi target low high rule: findLineNumberLoop.induct)
  case (1 lsi target low high)
  show ?case
  proof (cases "low < high")
    case False
    with "1.prems" show ?thesis by simp
  next
    case True
    define mid where "mid = (low + high) div 2"
    have mid: "low \<le> mid" "mid < high" using True by (auto simp: mid_def)
    show ?thesis
    proof (cases "target < int (lsi ! mid)")
      case lt: True
      have hi: "\<forall>i. mid \<le> i \<and> i < length lsi \<longrightarrow> target < int (lsi ! i)"
      proof (intro allI impI)
        fix i assume i: "mid \<le> i \<and> i < length lsi"
        then have "lsi ! mid \<le> lsi ! i"
          using "1.prems"(1) by (simp add: sorted_nth_mono)
        with lt show "target < int (lsi ! i)" by linarith
      qed
      have eq: "findLineNumberLoop lsi target low high = findLineNumberLoop lsi target low mid"
        using True lt by (simp add: mid_def Let_def)
      from "1.IH"(1)[OF True mid_def lt "1.prems"(1) mid(1) _ "1.prems"(4) hi]
      show ?thesis using mid "1.prems"(3) unfolding eq by auto
    next
      case ge: False
      have lo: "\<forall>i < mid + 1. int (lsi ! i) \<le> target"
      proof (intro allI impI)
        fix i assume i: "i < mid + 1"
        then have "lsi ! i \<le> lsi ! mid"
          using "1.prems"(1,3) mid by (simp add: sorted_nth_mono)
        with ge show "int (lsi ! i) \<le> target" by linarith
      qed
      have eq: "findLineNumberLoop lsi target low high = findLineNumberLoop lsi target (mid + 1) high"
        using True ge by (simp add: mid_def Let_def)
      from "1.IH"(2)[OF True mid_def ge "1.prems"(1) _ "1.prems"(3) lo "1.prems"(5)]
      show ?thesis using mid unfolding eq by auto
    qed
  qed
qed

lemma findLineNumberBinarySearch_correct:
  assumes "sorted lsi"
  shows "findLineNumberBinarySearch lsi target \<le> length lsi \<and>
         (\<forall>i < findLineNumberBinarySearch lsi target. int (lsi ! i) \<le> target) \<and>
         (\<forall>i. findLineNumberBinarySearch lsi target \<le> i \<and> i < length lsi \<longrightarrow> target < int (lsi ! i))"
  using findLineNumberLoop_correct[OF assms, of 0 "length lsi" target]
  by (simp add: findLineNumberBinarySearch_def)

lemma strict_sorted_imp_sorted: "sorted_wrt (<) (xs :: nat list) \<Longrightarrow> sorted xs"
  by (induction xs) (auto simp: less_imp_le)

lemma getLocFromIndex_line:
  assumes inv: "lsi \<noteq> []" "sorted_wrt (<) lsi" "hd lsi = 0"
    and lsi: "lsi = lineStartIndices sc"
    and i: "0 \<le> index" "index < int (length (source_text sc))"
  shows "\<exists>k. getLocFromIndex sc index = Inr \<lparr>line = int k, column = index - int (lsi ! (k - 1))\<rparr> \<and>
     1 \<le> k \<and> k \<le> length lsi \<and> int (lsi ! (k - 1)) \<le> index \<and>
     (k < length lsi \<longrightarrow> index < int (lsi ! k))"
proof (cases "index \<ge> int (last lsi)")
  case True
  have "lsi ! (length lsi - 1) = last lsi"
    using inv(1) by (simp add: last_conv_nth)
  with True inv(1) i show ?thesis
    by (intro exI[of _ "length lsi"]) (simp add: getLocFromIndex_def lsi[symmetric] Suc_leI)
next
  case False
  define k where "k = findLineNumberBinarySearch lsi index"
  note bs = findLineNumberBinarySearch_correct[OF strict_sorted_imp_sorted[OF inv(2)], of index,
      folded k_def]
  have "lsi ! 0 = 0" using inv(1,3) by (simp add: hd_conv_nth)
  then have "\<not> index < int (lsi ! 0)" using i by simp
  with bs inv(1) have k1: "1 \<le> k"
    by (metis One_nat_def length_greater_0_conv not_less zero_le less_one)
  have "getLocFromIndex sc index = Inr \<lparr>line = int k, column = index - int (lsi ! (k - 1))\<rparr>"
    using False i by (simp add: getLocFromIndex_def lsi[symmetric] k_def Let_def)
  moreover have "int (lsi ! (k - 1)) \<le> index" using bs k1 by simp
  moreover have "k < length lsi \<longrightarrow> index < int (lsi ! k)" using bs by simp
  ultimately show ?thesis using k1 bs by blast
qed

lemma getLocFromIndex_getIndexFromLoc:
  assumes "0 \<le> index" "index \<le> int (length (source_text (SourceCode_new t0 b)))"
  shows "\<exists>loc. getLocFromIndex (SourceCode_new t0 b) index = Inr loc \<and>
               getIndexFromLoc (SourceCode_new t0 b) loc = Inr index"
proof -
  define sc where "sc = SourceCode_new t0 b"
  define lsi where "lsi = lineStartIndices sc"
  note inv = SourceCode_new_inv[OF sc_def, folded lsi_def]
  show ?thesis
  proof (cases "index = int (length (source_text sc))")
    case True
    have "getLocFromIndex sc index =
        Inr \<lparr>line = int (length lsi), column = int (length (source_text sc) - last lsi)\<rparr>"
      using True inv by (simp add: getLocFromIndex_def)
    moreover have "getIndexFromLoc sc
        \<lparr>line = int (length lsi), column = int (length (source_text sc) - last lsi)\<rparr> = Inr index"
    proof -
      have l: "lsi ! (length lsi - 1) = last lsi" using inv by (simp add: last_conv_nth)
      have n: "nat (int (length lsi) - 1) = length lsi - 1" by simp
      have "int (last lsi) + int (length (source_text sc) - last lsi) = int (length (source_text sc))"
        using inv by simp
      then show ?thesis
        using True inv l
        by (simp add: getIndexFromLoc_def lsi_def[symmetric] Let_def n)
    qed
    ultimately show ?thesis unfolding sc_def by auto
  next
    case False
    with assms have i: "0 \<le> index" "index < int (length (source_text sc))"
      by (simp_all add: sc_def)
    have inv3: "lsi \<noteq> []" "sorted_wrt (<) lsi" "hd lsi = 0" using inv by simp_all
    from getLocFromIndex_line[OF inv3 lsi_def i] obtain k where
      k: "getLocFromIndex sc index = Inr \<lparr>line = int k, column = index - int (lsi ! (k - 1))\<rparr>"
        "1 \<le> k" "k \<le> length lsi" "int (lsi ! (k - 1)) \<le> index"
        "k < length lsi \<longrightarrow> index < int (lsi ! k)"
      by blast
    have "nat (int k - 1) = k - 1" using k(2) by simp
    then have "getIndexFromLoc sc \<lparr>line = int k, column = index - int (lsi ! (k - 1))\<rparr> = Inr index"
      using k(2-5) i
      by (auto simp add: getIndexFromLoc_def lsi_def[symmetric] Let_def)
    with k(1) show ?thesis unfolding sc_def by auto
  qed
qed

lemma getIndexFromLoc_Inr:
  assumes "getIndexFromLoc sc loc = Inr i" and lsi: "lsi = lineStartIndices sc"
  shows "\<exists>k. line loc = int k \<and> 1 \<le> k \<and> k \<le> length lsi \<and> 0 \<le> column loc \<and>
     i = int (lsi ! (k - 1)) + column loc \<and>
     (k = length lsi \<longrightarrow> i \<le> int (length (source_text sc))) \<and>
     (k < length lsi \<longrightarrow> i < int (lsi ! k))"
proof -
  have k: "line loc = int (nat (line loc))" "1 \<le> nat (line loc)" "nat (line loc) \<le> length lsi"
      "nat (line loc - 1) = nat (line loc) - 1"
    using assms by (auto simp: getIndexFromLoc_def split: if_splits)
  show ?thesis
    using assms k
    by (intro exI[of _ "nat (line loc)"])
       (auto simp: getIndexFromLoc_def Let_def split: if_splits)
qed

lemma getIndexFromLoc_getLocFromIndex:
  assumes ok: "getIndexFromLoc (SourceCode_new t0 b) loc = Inr i"
  shows "getLocFromIndex (SourceCode_new t0 b) i = Inr loc"
proof -
  define sc where "sc = SourceCode_new t0 b"
  define lsi where "lsi = lineStartIndices sc"
  note inv = SourceCode_new_inv[OF sc_def, folded lsi_def]
  have inv3: "lsi \<noteq> []" "sorted_wrt (<) lsi" "hd lsi = 0" using inv by simp_all
  have srt: "sorted lsi" using inv3(2) by (rule strict_sorted_imp_sorted)
  from getIndexFromLoc_Inr[OF ok[folded sc_def] lsi_def] obtain k where
    k: "line loc = int k" "1 \<le> k" "k \<le> length lsi" "0 \<le> column loc"
       "i = int (lsi ! (k - 1)) + column loc"
       "k = length lsi \<longrightarrow> i \<le> int (length (source_text sc))"
       "k < length lsi \<longrightarrow> i < int (lsi ! k)"
    by blast
  have last_le: "lsi ! j \<le> last lsi" if "j < length lsi" for j
    using that inv3(2) sorted_wrt_less_le_last nth_mem by blast
  have i_le: "i \<le> int (length (source_text sc))"
  proof (cases "k = length lsi")
    case True with k(6) show ?thesis by simp
  next
    case False
    with k(3) have "k < length lsi" by simp
    with k(7) last_le[of k] inv show ?thesis by linarith
  qed
  have i0: "0 \<le> i" using k(4,5) by simp
  show ?thesis
  proof (cases "i = int (length (source_text sc))")
    case True
    have "\<not> k < length lsi"
    proof
      assume "k < length lsi"
      with k(7) last_le[of k] inv True show False by linarith
    qed
    with k(3) have kn: "k = length lsi" by simp
    have "lsi ! (length lsi - 1) = last lsi" using inv3(1) by (simp add: last_conv_nth)
    with k(5) kn True inv have "column loc = int (length (last (lines sc)))"
      by simp
    with True kn k(1) inv show ?thesis
      unfolding sc_def[symmetric] by (simp add: getLocFromIndex_def lsi_def[symmetric])
  next
    case False
    with i_le i0 have ir: "0 \<le> i" "i < int (length (source_text sc))" by simp_all
    from getLocFromIndex_line[OF inv3 lsi_def ir] obtain k' where
      k': "getLocFromIndex sc i = Inr \<lparr>line = int k', column = i - int (lsi ! (k' - 1))\<rparr>"
        "1 \<le> k'" "k' \<le> length lsi" "int (lsi ! (k' - 1)) \<le> i"
        "k' < length lsi \<longrightarrow> i < int (lsi ! k')"
      by blast
    have "k' = k"
    proof (rule ccontr)
      assume ne: "k' \<noteq> k"
      show False
      proof (cases "k' < k")
        case True
        then have "lsi ! k' \<le> lsi ! (k - 1)"
          using k(3) srt by (intro sorted_nth_mono) auto
        with True k' k(3,4,5) show False by simp
      next
        case False
        with ne have lt: "k < k'" by simp
        then have "lsi ! k \<le> lsi ! (k' - 1)"
          using k'(3) srt by (intro sorted_nth_mono) auto
        with lt k' k(7) show False by simp
      qed
    qed
    with k' k(1,5) show ?thesis unfolding sc_def[symmetric] by simp
  qed
qed

text \<open>
  C1. For the object the constructor builds from any text, with or without a byte order
  mark, every offset from 0 to the length of the stripped text has a location, and
  \<open>getIndexFromLoc\<close> maps that location back to the offset; this includes the position
  at the end of the file. In the other direction, every location that \<open>getIndexFromLoc\<close>
  accepts is the location \<open>getLocFromIndex\<close> gives for its offset.
\<close>

theorem position_roundtrip:
  "(\<forall>index. 0 \<le> index \<and> index \<le> int (length (source_text (SourceCode_new t0 b))) \<longrightarrow>
      (\<exists>loc. getLocFromIndex (SourceCode_new t0 b) index = Inr loc \<and>
             getIndexFromLoc (SourceCode_new t0 b) loc = Inr index)) \<and>
   (\<forall>loc index. getIndexFromLoc (SourceCode_new t0 b) loc = Inr index \<longrightarrow>
      getLocFromIndex (SourceCode_new t0 b) index = Inr loc)"
  using getLocFromIndex_getIndexFromLoc getIndexFromLoc_getLocFromIndex by blast

lemma example_sc: "SourceCode_new example_text False =
  \<lparr>hasBOM = False, source_text = [97, 10, 98, 13, 10, 99],
    lines = [[97], [98], [99]], lineStartIndices = [0, 2, 5]\<rparr>"
  by (simp add: SourceCode_new_def example_text_def
      splitLoop.simps[of "[97, 10, 98, 13, 10, 99]"] lineEndingPattern_exec_def
      isLinebreakUnit_def slice_def)

theorem position_roundtrip_witness:
  "getLocFromIndex (SourceCode_new example_text False) 3 = Inr \<lparr>line = 2, column = 1\<rparr> \<and>
   getIndexFromLoc (SourceCode_new example_text False) \<lparr>line = 2, column = 1\<rparr> = Inr 3 \<and>
   getLocFromIndex (SourceCode_new example_text False) 6 = Inr \<lparr>line = 3, column = 1\<rparr> \<and>
   getIndexFromLoc (SourceCode_new example_text False) \<lparr>line = 3, column = 1\<rparr> = Inr 6"
proof -
  have len: "int (length (source_text (SourceCode_new example_text False))) = 6"
    by (simp add: example_sc)
  have l3: "getLocFromIndex (SourceCode_new example_text False) 3 = Inr \<lparr>line = 2, column = 1\<rparr>"
    by (simp add: example_sc getLocFromIndex_def findLineNumberBinarySearch_def
        findLineNumberLoop.simps Let_def)
  have l6: "getLocFromIndex (SourceCode_new example_text False) 6 = Inr \<lparr>line = 3, column = 1\<rparr>"
    by (simp add: example_sc getLocFromIndex_def)
  have r3: "\<exists>loc. getLocFromIndex (SourceCode_new example_text False) 3 = Inr loc \<and>
      getIndexFromLoc (SourceCode_new example_text False) loc = Inr 3"
    using position_roundtrip[of example_text False] len by simp
  have r6: "\<exists>loc. getLocFromIndex (SourceCode_new example_text False) 6 = Inr loc \<and>
      getIndexFromLoc (SourceCode_new example_text False) loc = Inr 6"
    using position_roundtrip[of example_text False] len by simp
  from r3 r6 l3 l6 show ?thesis by auto
qed

text \<open>
  C2. \<open>getIndexFromLoc\<close> throws exactly for the locations that are out of range, and
  what it throws is a range error; for every other location it returns the start of the
  line plus the column, which at the end of the file on the last line is the length of
  the text.
\<close>

theorem getIndexFromLoc_range_error:
  "((\<exists>msg. getIndexFromLoc sc loc = Inl (RangeError msg)) \<longleftrightarrow> locOutOfRange sc loc) \<and>
   (isl (getIndexFromLoc sc loc) \<longleftrightarrow> locOutOfRange sc loc) \<and>
   (\<not> locOutOfRange sc loc \<longrightarrow>
      getIndexFromLoc sc loc = Inr (lineStartIndex sc (line loc) + column loc)) \<and>
   (0 < line loc \<and> 0 \<le> column loc \<and> atEndOfFile sc loc \<longrightarrow>
      getIndexFromLoc sc loc = Inr (int (length (source_text sc))))"
proof -
  consider (low) "line loc \<le> 0"
    | (high) "0 < line loc" "line loc > int (length (lineStartIndices sc))"
    | (col) "0 < line loc" "line loc \<le> int (length (lineStartIndices sc))" "column loc < 0"
    | (lastl) "0 < line loc" "line loc = int (length (lineStartIndices sc))" "0 \<le> column loc"
    | (inner) "0 < line loc" "line loc < int (length (lineStartIndices sc))" "0 \<le> column loc"
    by linarith
  then have ab: "(locOutOfRange sc loc \<longrightarrow> (\<exists>msg. getIndexFromLoc sc loc = Inl (RangeError msg))) \<and>
     (\<not> locOutOfRange sc loc \<longrightarrow>
        getIndexFromLoc sc loc = Inr (lineStartIndex sc (line loc) + column loc))"
  proof cases
    case low
    then show ?thesis by (simp add: locOutOfRange_def getIndexFromLoc_def)
  next
    case high
    then show ?thesis by (simp add: locOutOfRange_def getIndexFromLoc_def)
  next
    case col
    then show ?thesis by (simp add: locOutOfRange_def getIndexFromLoc_def)
  next
    case lastl
    then show ?thesis
      by (auto simp: locOutOfRange_def getIndexFromLoc_def lineStartIndex_def
          lineEndIndex_def atEndOfFile_def Let_def)
  next
    case inner
    then show ?thesis
      by (auto simp: locOutOfRange_def getIndexFromLoc_def lineStartIndex_def
          lineEndIndex_def atEndOfFile_def Let_def)
  qed
  have a: "locOutOfRange sc loc \<Longrightarrow> \<exists>msg. getIndexFromLoc sc loc = Inl (RangeError msg)"
    using ab by blast
  have b: "\<not> locOutOfRange sc loc \<Longrightarrow>
      getIndexFromLoc sc loc = Inr (lineStartIndex sc (line loc) + column loc)"
    using ab by blast
  have c: "0 < line loc \<and> 0 \<le> column loc \<and> atEndOfFile sc loc \<Longrightarrow> \<not> locOutOfRange sc loc"
    by (auto simp: locOutOfRange_def atEndOfFile_def)
  have d: "0 < line loc \<and> 0 \<le> column loc \<and> atEndOfFile sc loc \<Longrightarrow>
      getIndexFromLoc sc loc = Inr (int (length (source_text sc)))"
    using b c by (auto simp: atEndOfFile_def)
  show ?thesis using a b d by (cases "locOutOfRange sc loc") auto
qed

theorem getIndexFromLoc_range_error_witness:
  "locOutOfRange (SourceCode_new [97, 10] False) \<lparr>line = 1, column = 2\<rparr> \<and>
   getIndexFromLoc (SourceCode_new [97, 10] False) \<lparr>line = 1, column = 2\<rparr> =
     Inl (RangeError ''Column number out of range'') \<and>
   \<not> locOutOfRange (SourceCode_new [97, 10] False) \<lparr>line = 2, column = 0\<rparr> \<and>
   atEndOfFile (SourceCode_new [97, 10] False) \<lparr>line = 2, column = 0\<rparr> \<and>
   getIndexFromLoc (SourceCode_new [97, 10] False) \<lparr>line = 2, column = 0\<rparr> = Inr 2 \<and>
   locOutOfRange (SourceCode_new [97, 10] False) \<lparr>line = 2, column = 1\<rparr> \<and>
   locOutOfRange (SourceCode_new [97, 10] False) \<lparr>line = 3, column = 0\<rparr> \<and>
   locOutOfRange (SourceCode_new [97, 10] False) \<lparr>line = 0, column = 0\<rparr>"
proof -
  have sc: "SourceCode_new [97, 10] False =
      \<lparr>hasBOM = False, source_text = [97, 10], lines = [[97], []],
       lineStartIndices = [0, 2]\<rparr>"
    by (simp add: SourceCode_new_def splitLoop.simps[of "[97, 10]"]
        lineEndingPattern_exec_def isLinebreakUnit_def slice_def)
  have e: "getIndexFromLoc (SourceCode_new [97, 10] False) \<lparr>line = 1, column = 2\<rparr> =
     Inl (RangeError ''Column number out of range'')"
    by (simp add: sc getIndexFromLoc_def)
  show ?thesis
    using getIndexFromLoc_range_error
      [of "SourceCode_new [97, 10] False" "\<lparr>line = 2, column = 0\<rparr>"] e
    by (simp add: sc locOutOfRange_def atEndOfFile_def lineStartIndex_def lineEndIndex_def)
qed

section \<open>Idempotence of addDeclaredGlobals\<close>

lemma declareGlobals_declareAll:
  "declareGlobals plain cg ig ids s = Inr t \<Longrightarrow>
   \<exists>es. map fst es = ids \<and>
     (\<forall>s'. declareGlobals plain cg ig ids s' = Inr (declareAll es s'))"
proof (induction ids arbitrary: s)
  case Nil
  then show ?case by (simp add: declareAll_def)
next
  case (Cons gid ids)
  then obtain e where e: "globalEntry plain cg ig gid = Inr e"
    and r: "declareGlobals plain cg ig ids (declareGlobal gid e s) = Inr t"
    by (auto split: sum.splits)
  from Cons.IH[OF r] obtain es where es: "map fst es = ids"
    "\<forall>s'. declareGlobals plain cg ig ids s' = Inr (declareAll es s')" by blast
  show ?case
    using e es by (intro exI[of _ "(gid, e) # es"]) (simp add: declareAll_def)
qed

lemma assignSettings_absorb [simp]:
  "assignSettings e (assignSettings e' v) = assignSettings e v"
  by (simp add: assignSettings_def)

lemma assignSettings_references [simp]:
  "assignSettings e (v\<lparr>var_references := r\<rparr>) = (assignSettings e v)\<lparr>var_references := r\<rparr>"
  by (simp add: assignSettings_def)

lemma declareGlobal_off [simp]: "ge_value e = Some Off \<Longrightarrow> declareGlobal gid e s = s"
  by (simp add: declareGlobal_def)

lemma declareGlobal_known:
  "ge_value e \<noteq> Some Off \<Longrightarrow> lookupVar s gid = Some a \<Longrightarrow>
   declareGlobal gid e s = s\<lparr>objects := updateVariable a (assignSettings e) (objects s)\<rparr>"
  by (simp add: declareGlobal_def)

lemma lookupVar_declareGlobal_mono:
  "lookupVar s k = Some a \<Longrightarrow> lookupVar (declareGlobal gid e s) k = Some a"
  by (auto simp: declareGlobal_def set_scope_set_def set_variables_def Let_def update_conv'
      split: option.splits)

lemma lookupVar_declareGlobal_self:
  "ge_value e \<noteq> Some Off \<Longrightarrow> lookupVar (declareGlobal gid e s) gid \<noteq> None"
  by (auto simp: declareGlobal_def set_scope_set_def set_variables_def Let_def update_conv'
      split: option.splits)

lemma lookupVar_declareGlobal_other:
  "k \<noteq> gid \<Longrightarrow> lookupVar (declareGlobal gid e s) k = lookupVar s k"
  by (auto simp: declareGlobal_def set_scope_set_def set_variables_def Let_def update_conv'
      split: option.splits)

lemma lastWriter_Nil [simp]: "lastWriter [] lk l = None"
  by (simp add: lastWriter_def)

lemma lastWriter_snoc [simp]:
  "lastWriter (es @ [(gid, e)]) lk l =
     (if ge_value e \<noteq> Some Off \<and> lk gid = Some l then Some e else lastWriter es lk l)"
  by (simp add: lastWriter_def)

lemma lastWriter_cong:
  assumes "\<forall>(gid, e) \<in> set es. ge_value e \<noteq> Some Off \<longrightarrow> lk gid = lk' gid"
  shows "lastWriter es lk l = lastWriter es lk' l"
  using assms
proof (induction es rule: rev_induct)
  case Nil
  then show ?case by simp
next
  case (snoc x es)
  obtain gid e where x: "x = (gid, e)" by (cases x)
  from snoc show ?case unfolding x by auto
qed

lemma writeAll_snoc:
  "writeAll (es @ [(gid, e)]) lk h =
     (if ge_value e = Some Off then writeAll es lk h
      else case lk gid of None \<Rightarrow> writeAll es lk h
           | Some a \<Rightarrow> (writeAll es lk h)[a := assignSettings e (writeAll es lk h ! a)])"
  by (simp add: writeAll_def split: option.splits)

lemma length_writeAll [simp]: "length (writeAll es lk h) = length h"
proof (induction es rule: rev_induct)
  case Nil
  then show ?case by (simp add: writeAll_def)
next
  case (snoc x es)
  obtain gid e where x: "x = (gid, e)" by (cases x)
  from snoc show ?case unfolding x by (simp add: writeAll_snoc split: option.splits)
qed

lemma writeAll_nth:
  "l < length h \<Longrightarrow>
   writeAll es lk h ! l =
     (case lastWriter es lk l of None \<Rightarrow> h ! l | Some e \<Rightarrow> assignSettings e (h ! l))"
proof (induction es rule: rev_induct)
  case Nil
  then show ?case by (simp add: writeAll_def)
next
  case (snoc x es)
  obtain gid e where x: "x = (gid, e)" by (cases x)
  from snoc show ?case unfolding x
    by (auto simp: writeAll_snoc nth_list_update split: option.splits)
qed

lemma declareAll_allDeclared:
  "allDeclared es s \<Longrightarrow>
   declareAll es s =
     s\<lparr>objects := (objects s)\<lparr>variableObjects := writeAll es (lookupVar s) (varHeap s)\<rparr>\<rparr>"
proof (induction es arbitrary: s)
  case Nil
  then show ?case by (simp add: declareAll_def writeAll_def)
next
  case (Cons x es)
  obtain gid e where x: "x = (gid, e)" by (cases x)
  show ?case
  proof (cases "ge_value e = Some Off")
    case True
    have "allDeclared es s" using Cons.prems by (simp add: allDeclared_def)
    from Cons.IH[OF this] True show ?thesis
      by (simp add: x declareAll_def writeAll_def)
  next
    case False
    then obtain a where a: "lookupVar s gid = Some a"
      using Cons.prems by (auto simp: allDeclared_def x)
    let ?s1 = "s\<lparr>objects := updateVariable a (assignSettings e) (objects s)\<rparr>"
    have d: "declareGlobal gid e s = ?s1" using False a by (rule declareGlobal_known)
    have "allDeclared es ?s1" using Cons.prems by (simp add: allDeclared_def)
    from Cons.IH[OF this] show ?thesis
      using False a d by (simp add: x declareAll_def writeAll_def updateVariable_def)
  qed
qed

lemma settled_fixed: "settled es s \<Longrightarrow> declareAll es s = s"
proof -
  assume st: "settled es s"
  have "writeAll es (lookupVar s) (varHeap s) = varHeap s"
  proof (rule nth_equalityI)
    show "length (writeAll es (lookupVar s) (varHeap s)) = length (varHeap s)" by simp
  next
    fix l assume "l < length (writeAll es (lookupVar s) (varHeap s))"
    then have l: "l < length (varHeap s)" by simp
    with st show "writeAll es (lookupVar s) (varHeap s) ! l = varHeap s ! l"
      by (auto simp: writeAll_nth settled_def split: option.splits)
  qed
  with declareAll_allDeclared[of es s] st show ?thesis
    by (simp add: settled_def)
qed

lemma declareAll_snoc:
  "declareAll (es @ [(gid, e)]) s = declareGlobal gid e (declareAll es s)"
  by (simp add: declareAll_def)

lemma declareGlobal_written:
  assumes "ge_value e \<noteq> Some Off" "lookupVar (declareGlobal gid e s) gid = Some a"
    "a < length (varHeap (declareGlobal gid e s))"
  shows "assignSettings e (varHeap (declareGlobal gid e s) ! a) =
         varHeap (declareGlobal gid e s) ! a"
proof (cases "lookupVar s gid")
  case None
  with assms show ?thesis
    by (auto simp: declareGlobal_def Let_def set_scope_set_def set_variables_def
        updateVariable_def update_conv')
next
  case (Some b)
  with assms show ?thesis
    by (auto simp: declareGlobal_def updateVariable_def)
qed

lemma declareGlobal_untouched:
  assumes "l < length (varHeap (declareGlobal gid e s))"
    "lookupVar (declareGlobal gid e s) gid \<noteq> Some l"
  shows "l < length (varHeap s) \<and> varHeap (declareGlobal gid e s) ! l = varHeap s ! l"
proof (cases "ge_value e = Some Off")
  case True
  with assms show ?thesis by simp
next
  case False
  show ?thesis
  proof (cases "lookupVar s gid")
    case None
    with assms False show ?thesis
      by (auto simp: declareGlobal_def Let_def set_scope_set_def set_variables_def
          updateVariable_def update_conv' nth_append less_Suc_eq)
  next
    case (Some b)
    with assms False show ?thesis
      by (auto simp: declareGlobal_def updateVariable_def)
  qed
qed

lemma declareAll_settled: "settled es (declareAll es s)"
proof (induction es rule: rev_induct)
  case Nil
  then show ?case by (simp add: settled_def allDeclared_def declareAll_def)
next
  case (snoc x es)
  obtain gid e where x: "x = (gid, e)" by (cases x)
  define t0 where "t0 = declareAll es s"
  define t1 where "t1 = declareGlobal gid e t0"
  have t1: "declareAll (es @ [x]) s = t1"
    by (simp add: x declareAll_snoc t0_def t1_def)
  from snoc have ih: "settled es t0" by (simp add: t0_def)
  have same: "lookupVar t1 k = lookupVar t0 k"
    if "(k, e') \<in> set es" "ge_value e' \<noteq> Some Off" for k e'
  proof -
    from ih that obtain a where "lookupVar t0 k = Some a"
      by (auto simp: settled_def allDeclared_def)
    then show ?thesis
      using lookupVar_declareGlobal_mono[of t0 k a gid e] by (simp add: t1_def)
  qed
  have d1: "lookupVar t1 k \<noteq> None"
    if m: "(k, e') \<in> set (es @ [x])" and off: "ge_value e' \<noteq> Some Off" for k e'
  proof (cases "(k, e') = (gid, e)")
    case True
    with off lookupVar_declareGlobal_self[of e gid t0] show ?thesis
      by (simp add: t1_def)
  next
    case False
    with m x have mem: "(k, e') \<in> set es" by auto
    from ih mem off have "lookupVar t0 k \<noteq> None"
      by (auto simp: settled_def allDeclared_def)
    with same[OF mem off] show ?thesis by simp
  qed
  have decl: "allDeclared (es @ [x]) t1"
    unfolding allDeclared_def using d1 by blast
  have lw: "lastWriter es (lookupVar t1) l = lastWriter es (lookupVar t0) l" for l
    by (rule lastWriter_cong) (use same in auto)
  have q: "case lastWriter (es @ [x]) (lookupVar t1) l of
             None \<Rightarrow> True
           | Some e' \<Rightarrow> assignSettings e' (varHeap t1 ! l) = varHeap t1 ! l"
    if l: "l < length (varHeap t1)" for l
  proof (cases "ge_value e \<noteq> Some Off \<and> lookupVar t1 gid = Some l")
    case True
    with declareGlobal_written[of e gid t0 l] l show ?thesis
      by (simp add: x t1_def)
  next
    case False
    have un: "l < length (varHeap t0) \<and> varHeap t1 ! l = varHeap t0 ! l"
    proof (cases "ge_value e = Some Off")
      case True
      with l show ?thesis by (simp add: t1_def)
    next
      case off: False
      with False have "lookupVar t1 gid \<noteq> Some l" by simp
      with declareGlobal_untouched[of l gid e t0] l show ?thesis by (simp add: t1_def)
    qed
    with ih have "case lastWriter es (lookupVar t0) l of
             None \<Rightarrow> True
           | Some e' \<Rightarrow> assignSettings e' (varHeap t0 ! l) = varHeap t0 ! l"
      by (simp add: settled_def)
    with False un lw[of l] show ?thesis by (auto simp: x split: option.splits)
  qed
  show ?case unfolding t1 settled_def using decl q by blast
qed

lemma sameButReferences_refl: "sameButReferences h h"
proof -
  have "h ! l = (h ! l)\<lparr>var_references := var_references (h ! l)\<rparr>" for l by simp
  then show ?thesis unfolding sameButReferences_def by blast
qed

lemma sameButReferences_trans:
  assumes "sameButReferences h h'" "sameButReferences h' h''"
  shows "sameButReferences h h''"
proof -
  have "\<exists>refs. h'' ! l = (h ! l)\<lparr>var_references := refs\<rparr>" for l
  proof -
    from assms(1) obtain r1 where 1: "h' ! l = (h ! l)\<lparr>var_references := r1\<rparr>"
      unfolding sameButReferences_def by blast
    from assms(2) obtain r2 where 2: "h'' ! l = (h' ! l)\<lparr>var_references := r2\<rparr>"
      unfolding sameButReferences_def by blast
    show ?thesis unfolding 2 1 by auto
  qed
  with assms show ?thesis unfolding sameButReferences_def by simp
qed

lemma sameButReferences_update:
  "sameButReferences h (h[a := (h ! a)\<lparr>var_references := refs\<rparr>])"
proof -
  have "\<exists>r. h[a := (h ! a)\<lparr>var_references := refs\<rparr>] ! l = (h ! l)\<lparr>var_references := r\<rparr>" for l
  proof (cases "l = a \<and> a < length h")
    case True
    then show ?thesis by auto
  next
    case False
    then have "h[a := (h ! a)\<lparr>var_references := refs\<rparr>] ! l = h ! l"
      by (cases "l = a") (auto simp: list_update_beyond)
    then have "h[a := (h ! a)\<lparr>var_references := refs\<rparr>] ! l =
        (h ! l)\<lparr>var_references := var_references (h ! l)\<rparr>" by simp
    then show ?thesis by blast
  qed
  then show ?thesis unfolding sameButReferences_def by simp
qed

lemma sameIdentifiers_refl: "sameIdentifiers R R"
  by (simp add: sameIdentifiers_def)

lemma sameIdentifiers_trans:
  "sameIdentifiers R R' \<Longrightarrow> sameIdentifiers R' R'' \<Longrightarrow> sameIdentifiers R R''"
  by (simp add: sameIdentifiers_def)

lemma sameIdentifiers_update:
  "sameIdentifiers R (R[r := (R ! r)\<lparr>ref_resolved := x\<rparr>])"
proof -
  have "ref_identifier (R[r := (R ! r)\<lparr>ref_resolved := x\<rparr>] ! k) = ref_identifier (R ! k)" for k
  proof (cases "k = r \<and> r < length R")
    case True
    then show ?thesis by auto
  next
    case False
    then have "R[r := (R ! r)\<lparr>ref_resolved := x\<rparr>] ! k = R ! k"
      by (cases "k = r") (auto simp: list_update_beyond)
    then show ?thesis by simp
  qed
  then show ?thesis unfolding sameIdentifiers_def by simp
qed

lemma resolveThrough_effect:
  "resolveThrough st rs store = (kept, store') \<Longrightarrow>
   kept = filter (\<lambda>r. map_of st (refName store r) = None) rs \<and>
   sameButReferences (variableObjects store) (variableObjects store') \<and>
   sameIdentifiers (referenceObjects store) (referenceObjects store')"
proof (induction rs arbitrary: store kept store')
  case Nil
  then show ?case by (simp add: sameButReferences_refl sameIdentifiers_refl)
next
  case (Cons r rs)
  show ?case
  proof (cases "map_of st (refName store r)")
    case None
    obtain k1 s1 where r1: "resolveThrough st rs store = (k1, s1)"
      by (cases "resolveThrough st rs store")
    with Cons.prems None have eq: "kept = r # k1" "store' = s1" by auto
    from Cons.IH[OF r1] None show ?thesis unfolding eq by simp
  next
    case (Some a)
    define store1 where "store1 =
      updateVariable a (\<lambda>v. v\<lparr>var_references := var_references v @ [r]\<rparr>)
        (updateReference r (\<lambda>x. x\<lparr>ref_resolved := Some a\<rparr>) store)"
    have r1: "resolveThrough st rs store1 = (kept, store')"
      using Cons.prems Some by (simp add: store1_def)
    have v1: "sameButReferences (variableObjects store) (variableObjects store1)"
      using sameButReferences_update[of "variableObjects store" a]
      by (simp add: store1_def updateVariable_def updateReference_def)
    have i1: "sameIdentifiers (referenceObjects store) (referenceObjects store1)"
      using sameIdentifiers_update[of "referenceObjects store" r]
      by (simp add: store1_def updateVariable_def updateReference_def)
    then have names: "refName store1 k = refName store k" for k
      by (simp add: sameIdentifiers_def)
    from Cons.IH[OF r1] Some v1 i1 show ?thesis
      by (auto simp: names intro: sameButReferences_trans sameIdentifiers_trans)
  qed
qed

lemma resolveThrough_none:
  "\<forall>r \<in> set rs. map_of st (refName store r) = None \<Longrightarrow>
   resolveThrough st rs store = (rs, store)"
  by (induction rs) auto

lemma settled_sameButReferences:
  assumes "settled es s" "scope_set (globalScope s') = scope_set (globalScope s)"
    "sameButReferences (varHeap s) (varHeap s')"
  shows "settled es s'"
proof -
  have "case lastWriter es (lookupVar s') l of
          None \<Rightarrow> True
        | Some e \<Rightarrow> assignSettings e (varHeap s' ! l) = varHeap s' ! l"
    if "l < length (varHeap s')" for l
  proof -
    from assms(3) that obtain refs where
      l: "l < length (varHeap s)" "varHeap s' ! l = (varHeap s ! l)\<lparr>var_references := refs\<rparr>"
      unfolding sameButReferences_def by metis
    from assms(1) l(1) have "case lastWriter es (lookupVar s) l of
          None \<Rightarrow> True
        | Some e \<Rightarrow> assignSettings e (varHeap s ! l) = varHeap s ! l"
      by (simp add: settled_def)
    then show ?thesis
      by (auto simp: assms(2) l(2) split: option.splits)
  qed
  with assms(1,2) show ?thesis by (simp add: settled_def allDeclared_def)
qed

lemma pruneImplicit_idem:
  "pruneImplicit st store (pruneImplicit st store im) = pruneImplicit st store im"
proof -
  have f: "fold (\<lambda>v s. if P v then D v s else s) vs s0 = s0" if "\<forall>v \<in> set vs. \<not> P v"
    for P :: "nat \<Rightarrow> bool" and D :: "nat \<Rightarrow> (string \<times> nat) list \<Rightarrow> (string \<times> nat) list"
      and vs s0
    using that by (induction vs arbitrary: s0) auto
  show ?thesis
    unfolding pruneImplicit_def
    by (cases "implicit_left im") (simp_all add: f)
qed

lemma addDeclaredGlobals_finish:
  "addDeclaredGlobals s configGlobals inlineGlobals =
     (let cg = (case configGlobals of None \<Rightarrow> [] | Some c \<Rightarrow> c);
          ig = (case inlineGlobals of None \<Rightarrow> [] | Some i \<Rightarrow> i)
      in case declareGlobals (configGlobals = None) cg ig
                (uniqueKeys (map fst cg @ map fst ig)) s of
           Inl e \<Rightarrow> Inl e
         | Inr s1 \<Rightarrow> Inr (finishGlobals s1))"
  by (simp add: addDeclaredGlobals_def finishGlobals_def Let_def split: sum.splits prod.splits)

lemma finishGlobals_fixed:
  assumes "settled es t"
  shows "settled es (finishGlobals t) \<and> finishGlobals (finishGlobals t) = finishGlobals t"
proof -
  define st where "st = scope_set (globalScope t)"
  obtain kept store2 where rt:
    "resolveThrough st (through (globalScope t)) (objects t) = (kept, store2)"
    by (cases "resolveThrough st (through (globalScope t)) (objects t)")
  note eff = resolveThrough_effect[OF rt]
  define scope2 where "scope2 = set_through kept (globalScope t)"
  define scope3 where "scope3 =
    (case implicit scope2 of
       None \<Rightarrow> scope2
     | Some im \<Rightarrow> set_implicit (Some (pruneImplicit (scope_set scope2) store2 im)) scope2)"
  have f1: "finishGlobals t = \<lparr>globalScope = scope3, objects = store2\<rparr>"
    by (simp only: finishGlobals_def st_def[symmetric] rt prod.case Let_def
        scope2_def[symmetric] scope3_def[symmetric])
  have s2: "scope_set scope2 = st" "through scope2 = kept"
    by (simp_all add: scope2_def set_through_def st_def)
  have s3: "scope_set scope3 = st" "through scope3 = kept"
    using s2 by (auto simp: scope3_def set_implicit_def split: option.splits)
  have settled1: "settled es (finishGlobals t)"
  proof (rule settled_sameButReferences[OF assms])
    show "scope_set (globalScope (finishGlobals t)) = scope_set (globalScope t)"
      unfolding f1 using s3(1) by (simp add: st_def)
    show "sameButReferences (varHeap t) (varHeap (finishGlobals t))"
      unfolding f1 using eff by simp
  qed
  have si: "sameIdentifiers (referenceObjects (objects t)) (referenceObjects store2)"
    using eff by blast
  have names: "refName store2 r = refName (objects t) r" for r
    using si unfolding sameIdentifiers_def by metis
  have kept: "kept = filter (\<lambda>r. map_of st (refName (objects t) r) = None)
      (through (globalScope t))"
    using eff by blast
  have "\<forall>r \<in> set kept. map_of st (refName store2 r) = None"
    unfolding names by (subst kept) simp
  then have rt2: "resolveThrough st kept store2 = (kept, store2)"
    by (rule resolveThrough_none)
  have t3: "set_through kept scope3 = scope3"
    using s3(2) by (cases scope3) (simp add: set_through_def)
  have i3: "(case implicit scope3 of
       None \<Rightarrow> scope3
     | Some im \<Rightarrow> set_implicit (Some (pruneImplicit st store2 im)) scope3) = scope3"
  proof (cases "implicit scope2")
    case None
    then show ?thesis by (simp add: scope3_def)
  next
    case (Some im)
    then show ?thesis
      by (simp add: scope3_def s2 set_implicit_def pruneImplicit_idem)
  qed
  have "finishGlobals (finishGlobals t) = finishGlobals t"
    unfolding f1
    by (simp add: finishGlobals_def s3 rt2 Let_def) (unfold t3 s3, rule i3)
  with settled1 show ?thesis by simp
qed

lemma addDeclaredGlobals_again:
  assumes "addDeclaredGlobals s cg ig = Inr s1"
  shows "addDeclaredGlobals s1 cg ig = Inr s1"
proof -
  define c where "c = (case cg of None \<Rightarrow> [] | Some x \<Rightarrow> x)"
  define i where "i = (case ig of None \<Rightarrow> [] | Some x \<Rightarrow> x)"
  define ids where "ids = uniqueKeys (map fst c @ map fst i)"
  define plain where "plain = (cg = None)"
  from assms obtain t where t: "declareGlobals plain c i ids s = Inr t"
    and s1: "s1 = finishGlobals t"
    by (auto simp: addDeclaredGlobals_finish Let_def c_def i_def ids_def plain_def
        split: sum.splits)
  from declareGlobals_declareAll[OF t] obtain es where
    es: "\<And>s'. declareGlobals plain c i ids s' = Inr (declareAll es s')" by blast
  have "t = declareAll es s" using t es by simp
  then have "settled es t" by (simp add: declareAll_settled)
  from finishGlobals_fixed[OF this] have
    fx: "settled es s1" "finishGlobals s1 = s1" by (simp_all add: s1)
  have "declareGlobals plain c i ids s1 = Inr s1"
    using es[of s1] settled_fixed[OF fx(1)] by simp
  then show ?thesis
    using fx(2) by (simp add: addDeclaredGlobals_finish Let_def c_def i_def ids_def plain_def)
qed

lemma set_uniqueKeys: "set (uniqueKeys ks) = set ks"
proof -
  have "set (fold (\<lambda>k acc. if k \<in> set acc then acc else acc @ [k]) ks acc) = set ks \<union> set acc"
    for acc :: "string list"
    by (induction ks arbitrary: acc) auto
  then show ?thesis by (simp add: uniqueKeys_def)
qed

text \<open>
  A configuration object without a prototype whose values are normalized settings
  gives every name an entry.
\<close>

lemma globalEntry_normalized:
  assumes "\<forall>v \<in> snd ` set cg. normalizedSetting v"
  shows "\<exists>e. globalEntry False cg ig gid = Inr e"
proof (cases "map_of cg gid")
  case None
  then show ?thesis by (simp add: globalEntry_def configProperty_def)
next
  case (Some raw)
  then have "raw \<in> snd ` set cg" by (metis map_of_SomeD snd_conv image_eqI)
  with assms have "normalizedSetting raw" by blast
  with Some show ?thesis
    by (auto simp: globalEntry_def configProperty_def normalizedSetting_def
        normalizeConfigGlobal_def)
qed

text \<open>
  The default configuration object gives an entry to every name that
  \<open>Object.prototype\<close> does not have, and throws for the others.
\<close>

lemma globalEntry_default:
  "map_of objectPrototype gid = None \<Longrightarrow> \<exists>e. globalEntry True [] ig gid = Inr e"
  by (simp add: globalEntry_def configProperty_def)

lemma normalizeConfigGlobal_object:
  "normalizeConfigGlobal (JObject x) = Inl (Error (invalid_global_message (JObject x)))"
  by (simp add: normalizeConfigGlobal_def)

lemma objectPrototype_objects:
  "map_of objectPrototype gid = Some v \<Longrightarrow> \<exists>x. v = JObject x"
  by (auto simp: objectPrototype_def nativeFunction_def split: if_splits)

lemma globalEntry_inherited:
  assumes "map_of objectPrototype gid = Some v"
  shows "globalEntry True [] ig gid = Inl (Error (invalid_global_message v))"
proof -
  from objectPrototype_objects[OF assms] obtain x where "v = JObject x" by blast
  with assms show ?thesis
    by (simp add: globalEntry_def configProperty_def normalizeConfigGlobal_object)
qed

lemma declareGlobals_returns:
  assumes "\<forall>gid \<in> set ids. \<exists>e. globalEntry plain cg ig gid = Inr e"
  shows "\<exists>t. declareGlobals plain cg ig ids s = Inr t"
  using assms
proof (induction ids arbitrary: s)
  case Nil
  then show ?case by simp
next
  case (Cons gid ids)
  then obtain e where "globalEntry plain cg ig gid = Inr e" by auto
  with Cons.IH[of "declareGlobal gid e s"] Cons.prems show ?case by simp
qed

lemma declareGlobals_throws:
  assumes "gid \<in> set ids" and "globalEntry plain cg ig gid = Inl x"
  shows "\<exists>y. declareGlobals plain cg ig ids s = Inl y"
  using assms(1)
proof (induction ids arbitrary: s)
  case Nil
  then show ?case by simp
next
  case (Cons k ids)
  show ?case
  proof (cases "globalEntry plain cg ig k")
    case (Inl y)
    then show ?thesis by simp
  next
    case (Inr e)
    with assms(2) have "k \<noteq> gid" by auto
    with Cons.prems have "gid \<in> set ids" by simp
    from Cons.IH[OF this, of "declareGlobal k e s"] Inr show ?thesis by simp
  qed
qed

text \<open>
  When \<open>configGlobals\<close> is omitted and a comment declares a global that has the name of
  a property of \<open>Object.prototype\<close>, the call throws: the inherited property is not
  \<open>undefined\<close>, and \<open>normalizeConfigGlobal\<close> rejects it.
\<close>

lemma addDeclaredGlobals_default_throws:
  assumes "gid \<in> fst ` set ig" and "map_of objectPrototype gid = Some v"
  shows "\<exists>e. addDeclaredGlobals s None (Some ig) = Inl e"
proof -
  from assms(1) have "gid \<in> set (uniqueKeys (map fst [] @ map fst ig))"
    by (simp add: set_uniqueKeys)
  from declareGlobals_throws[OF this globalEntry_inherited[OF assms(2)]]
  obtain y where
    "declareGlobals True [] ig (uniqueKeys (map fst [] @ map fst ig)) s = Inl y" by blast
  then show ?thesis by (simp add: addDeclaredGlobals_finish)
qed

lemma addDeclaredGlobals_default_toString:
  "addDeclaredGlobals s None (Some [(''toString'', g)]) =
     Inl (Error (invalid_global_message (JObject ''function toString() { [native code] }'')))"
  by (simp add: addDeclaredGlobals_def uniqueKeys_def globalEntry_def configProperty_def
      objectPrototype_def nativeFunction_def normalizeConfigGlobal_def)

text \<open>
  C3. For configured globals whose values are normalized settings (or, when the
  argument is omitted, inline globals none of which has the name of a property of
  \<open>Object.prototype\<close>), a call of \<open>addDeclaredGlobals\<close> returns normally, and a second
  call with the same configured and inline globals on the scope and objects that the
  first call left returns exactly that state again: the same variables and \<open>set\<close>, the
  same settings and references of every variable, the same resolved references, the
  same \<open>through\<close> list and the same \<open>implicit\<close> bookkeeping.
\<close>

theorem addDeclaredGlobals_idempotent:
  assumes "case configGlobals of
             Some c \<Rightarrow> \<forall>v \<in> snd ` set c. normalizedSetting v
           | None \<Rightarrow>
               \<forall>gid \<in> fst ` set (case inlineGlobals of None \<Rightarrow> [] | Some i \<Rightarrow> i).
                 map_of objectPrototype gid = None"
  shows "\<exists>s1. addDeclaredGlobals s configGlobals inlineGlobals = Inr s1 \<and>
              addDeclaredGlobals s1 configGlobals inlineGlobals = Inr s1"
proof -
  define cg where "cg = (case configGlobals of None \<Rightarrow> [] | Some c \<Rightarrow> c)"
  define ig where "ig = (case inlineGlobals of None \<Rightarrow> [] | Some i \<Rightarrow> i)"
  define ids where "ids = uniqueKeys (map fst cg @ map fst ig)"
  have "\<forall>gid \<in> set ids. \<exists>e. globalEntry (configGlobals = None) cg ig gid = Inr e"
  proof (cases configGlobals)
    case None
    with assms show ?thesis
      by (auto simp: ids_def cg_def ig_def set_uniqueKeys intro!: globalEntry_default)
  next
    case (Some c)
    with assms have "\<forall>v \<in> snd ` set cg. normalizedSetting v" by (simp add: cg_def)
    from globalEntry_normalized[OF this] Some show ?thesis by simp
  qed
  from declareGlobals_returns[OF this] obtain t where
    "declareGlobals (configGlobals = None) cg ig ids s = Inr t" by blast
  then have "addDeclaredGlobals s configGlobals inlineGlobals = Inr (finishGlobals t)"
    by (simp add: addDeclaredGlobals_finish Let_def cg_def ig_def ids_def)
  with addDeclaredGlobals_again show ?thesis by blast
qed

lemmas adg_eval = addDeclaredGlobals_def uniqueKeys_def declareGlobal_def globalEntry_def
  configProperty_def objectPrototype_def nativeFunction_def
  normalizeConfigGlobal_def set_variables_def set_scope_set_def set_through_def
  set_implicit_def updateVariable_def updateReference_def newVariable_def
  assignSettings_def plain_node_def Let_def

theorem addDeclaredGlobals_idempotent_witness:
  "list_all normalizedSetting (map snd example_configGlobals) \<and>
   addDeclaredGlobals example_scope_state (Some example_configGlobals)
     (Some example_inlineGlobals) = Inr example_scope_state_after \<and>
   addDeclaredGlobals example_scope_state_after (Some example_configGlobals)
     (Some example_inlineGlobals) = Inr example_scope_state_after \<and>
   list_all (\<lambda>gid. map_of objectPrototype gid = None) (map fst example_inlineGlobals) \<and>
   addDeclaredGlobals example_scope_state None (Some example_inlineGlobals) =
     Inr example_scope_state_inline \<and>
   addDeclaredGlobals example_scope_state_inline None (Some example_inlineGlobals) =
     Inr example_scope_state_inline"
proof -
  have n: "case Some example_configGlobals of
             Some c \<Rightarrow> \<forall>v \<in> snd ` set c. normalizedSetting v
           | None \<Rightarrow>
               \<forall>gid \<in> fst ` set (case Some example_inlineGlobals of None \<Rightarrow> [] | Some i \<Rightarrow> i).
                 map_of objectPrototype gid = None"
    by (simp add: example_configGlobals_def normalizedSetting_def)
  have e: "addDeclaredGlobals example_scope_state (Some example_configGlobals)
     (Some example_inlineGlobals) = Inr example_scope_state_after"
    by (simp add: example_scope_state_def example_configGlobals_def
        example_inlineGlobals_def example_scope_state_after_def adg_eval)
  have m: "case None of
             Some c \<Rightarrow> \<forall>v \<in> snd ` set c. normalizedSetting v
           | None \<Rightarrow>
               \<forall>gid \<in> fst ` set (case Some example_inlineGlobals of None \<Rightarrow> [] | Some i \<Rightarrow> i).
                 map_of objectPrototype gid = None"
    by (simp add: example_inlineGlobals_def objectPrototype_def)
  have d: "addDeclaredGlobals example_scope_state None (Some example_inlineGlobals) =
     Inr example_scope_state_inline"
    by (simp add: example_scope_state_def example_inlineGlobals_def
        example_scope_state_inline_def adg_eval)
  from addDeclaredGlobals_idempotent[OF n, of example_scope_state] e
  have e2: "addDeclaredGlobals example_scope_state_after (Some example_configGlobals)
     (Some example_inlineGlobals) = Inr example_scope_state_after" by auto
  from addDeclaredGlobals_idempotent[OF m, of example_scope_state] d
  have d2: "addDeclaredGlobals example_scope_state_inline None (Some example_inlineGlobals) =
     Inr example_scope_state_inline" by auto
  have n': "list_all normalizedSetting (map snd example_configGlobals)"
    by (simp add: example_configGlobals_def normalizedSetting_def)
  have m': "list_all (\<lambda>gid. map_of objectPrototype gid = None) (map fst example_inlineGlobals)"
    by (simp add: example_inlineGlobals_def objectPrototype_def)
  from n' e e2 m' d d2 show ?thesis by simp
qed


section \<open>Properties of isSpaceBetween\<close>

lemma nodesOrTokensOverlap_commute:
  "nodesOrTokensOverlap a b = nodesOrTokensOverlap b a"
  by (auto simp: nodesOrTokensOverlap_def)

lemma spaceLoop_returns:
  "walkEnds ts n finalToken currentToken \<Longrightarrow>
   \<exists>r. spaceLoop ts chk finalToken currentToken = Some r"
proof (induction n arbitrary: currentToken)
  case 0
  then show ?case by (subst spaceLoop.simps) simp
next
  case (Suc n)
  show ?case
  proof (cases "ent_id currentToken = ent_id finalToken")
    case True
    then show ?thesis by (subst spaceLoop.simps) simp
  next
    case False
    show ?thesis
    proof (cases "getTokenAfter ts currentToken")
      case None
      with False show ?thesis by (subst spaceLoop.simps) simp
    next
      case (Some nextToken)
      with Suc.prems False have "walkEnds ts n finalToken nextToken" by simp
      from Suc.IH[OF this] obtain r where "spaceLoop ts chk finalToken nextToken = Some r" ..
      with False Some show ?thesis by (subst spaceLoop.simps) simp
    qed
  qed
qed

lemma ordered_pair_commute:
  assumes "wellFormedRange a" "wellFormedRange b" "\<not> nodesOrTokensOverlap a b"
  shows "(if snd (ent_range a) \<le> fst (ent_range b) then (a, b) else (b, a)) =
         (if snd (ent_range b) \<le> fst (ent_range a) then (b, a) else (a, b))"
  using assms by (auto simp: wellFormedRange_def nodesOrTokensOverlap_def)

text \<open>
  C8. For two nodes or tokens whose ranges do not end before they start,
  \<open>isSpaceBetween(a, b)\<close> and \<open>isSpaceBetween(b, a)\<close> are the same: the same result, the
  same exception or the same walk without end. When the ranges of a and b overlap, by
  the test of the function or by having an offset in common, the method returns false,
  in either order.
\<close>

theorem isSpaceBetween_commute:
  "(wellFormedRange a \<and> wellFormedRange b \<longrightarrow>
      SourceCode_isSpaceBetween ts a b = SourceCode_isSpaceBetween ts b a) \<and>
   (nodesOrTokensOverlap a b \<or> rangesOverlap a b \<longrightarrow>
      SourceCode_isSpaceBetween ts a b = Some (Inr False) \<and>
      SourceCode_isSpaceBetween ts b a = Some (Inr False))"
proof -
  have ro: "nodesOrTokensOverlap a b" if "rangesOverlap a b"
    using that by (auto simp: rangesOverlap_def nodesOrTokensOverlap_def)
  have c: "SourceCode_isSpaceBetween ts a b = SourceCode_isSpaceBetween ts b a"
    if wf: "wellFormedRange a" "wellFormedRange b"
  proof (cases "nodesOrTokensOverlap a b")
    case True
    then show ?thesis
      using nodesOrTokensOverlap_commute[of a b]
      by (simp add: SourceCode_isSpaceBetween_def isSpaceBetween_def)
  next
    case False
    then have f2: "\<not> nodesOrTokensOverlap b a"
      using nodesOrTokensOverlap_commute[of a b] by simp
    show ?thesis
      unfolding SourceCode_isSpaceBetween_def isSpaceBetween_def
      using False f2 ordered_pair_commute[OF wf False] by simp
  qed
  have o: "SourceCode_isSpaceBetween ts a b = Some (Inr False) \<and>
      SourceCode_isSpaceBetween ts b a = Some (Inr False)" if "nodesOrTokensOverlap a b"
    using that nodesOrTokensOverlap_commute[of a b]
    by (simp add: SourceCode_isSpaceBetween_def isSpaceBetween_def)
  show ?thesis using c o ro by blast
qed

theorem isSpaceBetween_commute_witness:
  "wellFormedRange (example_token 1 0 1) \<and> wellFormedRange (example_token 3 3 4) \<and>
   SourceCode_isSpaceBetween example_token_store (example_token 1 0 1) (example_token 3 3 4) =
     Some (Inr True) \<and>
   SourceCode_isSpaceBetween example_token_store (example_token 3 3 4) (example_token 1 0 1) =
     Some (Inr True) \<and>
   SourceCode_isSpaceBetween example_token_store (example_token 1 0 1) (example_token 2 1 2) =
     Some (Inr False)"
proof -
  have w: "wellFormedRange (example_token 1 0 1)" "wellFormedRange (example_token 3 3 4)"
    by (simp_all add: wellFormedRange_def example_token_def)
  have e: "SourceCode_isSpaceBetween example_token_store (example_token 1 0 1)
      (example_token 3 3 4) = Some (Inr True)"
    by (simp add: SourceCode_isSpaceBetween_def isSpaceBetween_def nodesOrTokensOverlap_def
        example_token_store_def example_token_def spaceLoop.simps)
  have o: "nodesOrTokensOverlap (example_token 1 0 1) (example_token 2 1 2)"
    by (simp add: nodesOrTokensOverlap_def example_token_def)
  from isSpaceBetween_commute[of "example_token 1 0 1" "example_token 3 3 4" example_token_store]
    isSpaceBetween_commute[of "example_token 1 0 1" "example_token 2 1 2" example_token_store]
    w e o show ?thesis by simp
qed

section \<open>Properties of getScope and isGlobalReference\<close>

text \<open>
  C5. With a scope manager that has its global scope, the first query of
  \<open>isGlobalReference\<close> for a node returns true exactly when the node is an identifier
  whose name has a variable in the global scope's \<open>set\<close>, the variable has no
  definitions and this node is the identifier of one of its references, and false in
  every other case. The answer is stored for the node, and a later query returns it.
\<close>

theorem isGlobalReference_iff:
  assumes "scopes m \<noteq> []" "cache (node_id (attrs n)) = None"
  shows "isGlobalReference (Some m) store cache (Some n) =
           (Inr (globalReference m store n),
            cache(node_id (attrs n) := Some (globalReference m store n))) \<and>
         isGlobalReference (Some m) store'
             (cache(node_id (attrs n) := Some (globalReference m store n))) (Some n) =
           (Inr (globalReference m store n),
            cache(node_id (attrs n) := Some (globalReference m store n)))"
proof -
  obtain g rest where g: "scopes m = g # rest" using assms(1) by (cases "scopes m") auto
  have 1: "isGlobalReference (Some m) store cache (Some n) =
           (Inr (globalReference m store n),
            cache(node_id (attrs n) := Some (globalReference m store n)))"
    using assms(2) g
    by (auto simp: isGlobalReference_def globalReference_def Let_def list_ex_iff
        split: option.splits)
  have 2: "isGlobalReference (Some m) store'
             (cache(node_id (attrs n) := Some (globalReference m store n))) (Some n) =
           (Inr (globalReference m store n),
            cache(node_id (attrs n) := Some (globalReference m store n)))"
    by (simp add: isGlobalReference_def)
  show ?thesis using 1 2 by simp
qed

theorem isGlobalReference_iff_witness:
  "scopes example_scope_manager \<noteq> [] \<and>
   globalReference example_scope_manager example_store example_identifier_node \<and>
   fst (isGlobalReference (Some example_scope_manager) example_store (\<lambda>i. None)
          (Some example_identifier_node)) = Inr True \<and>
   \<not> globalReference example_scope_manager example_store example_program_node \<and>
   fst (isGlobalReference (Some example_scope_manager) example_store (\<lambda>i. None)
          (Some example_program_node)) = Inr False"
  using isGlobalReference_iff [of example_scope_manager "\<lambda>i. None" example_identifier_node
      example_store example_store]
    isGlobalReference_iff [of example_scope_manager "\<lambda>i. None" example_program_node
      example_store example_store]
  by (simp add: example_scope_manager_def example_global_scope_def example_store_def
      example_identifier_node_def example_program_node_def plain_node_def
      globalReference_def)

lemma getScopeLoop_fallback:
  "noScopeOnChain m inner n \<Longrightarrow>
   getScopeLoop (Some m) cache i inner n =
     (Inr (firstElement (scopes m)), cache(i := Some (firstElement (scopes m))))"
  by (induction n) (auto split: option.splits)

lemma getScopeLoop_returns:
  "\<exists>r c. getScopeLoop (Some m) cache i inner n = (Inr r, c)"
  by (induction n) (auto split: option.splits)

text \<open>
  C10. With a scope manager that has its global scope as \<open>scopes[0]\<close>: when neither the
  node nor any node of its parent chain has a scope in the scope manager and no scope
  is cached for the node, \<open>getScope\<close> returns \<open>scopes[0]\<close> and stores it for the node, and
  the next call returns the stored scope. For any cache and any present node,
  \<open>getScope\<close> returns without an error.
\<close>

theorem getScope_fallback:
  assumes "noScopeOnChain m (node_type (attrs n) \<noteq> ''Program'') n"
    and "scopes m = g # rest"
    and "\<forall>s. cache (node_id (attrs n)) \<noteq> Some (Some s)"
  shows "getScope (Some m) cache (Some n) =
           (Inr (Some g), cache(node_id (attrs n) := Some (Some g))) \<and>
         getScope (Some m) (cache(node_id (attrs n) := Some (Some g))) (Some n) =
           (Inr (Some g), cache(node_id (attrs n) := Some (Some g))) \<and>
         (\<exists>r c. getScope (Some m) cache' (Some n') = (Inr r, c))"
proof -
  have 1: "getScope (Some m) cache (Some n) =
           (Inr (Some g), cache(node_id (attrs n) := Some (Some g)))"
    using assms getScopeLoop_fallback[OF assms(1), of cache "node_id (attrs n)"]
    by (auto simp: getScope_def firstElement_def split: option.splits)
  have 2: "getScope (Some m) (cache(node_id (attrs n) := Some (Some g))) (Some n) =
           (Inr (Some g), cache(node_id (attrs n) := Some (Some g)))"
    by (simp add: getScope_def)
  have 3: "\<exists>r c. getScope (Some m) cache' (Some n') = (Inr r, c)"
    using getScopeLoop_returns[of m cache' "node_id (attrs n')" _ n']
    by (auto simp: getScope_def split: option.splits)
  show ?thesis using 1 2 3 by blast
qed

theorem getScope_fallback_witness:
  "noScopeOnChain example_scope_manager True example_identifier_node \<and>
   fst (getScope (Some example_scope_manager) (\<lambda>i. None) (Some example_identifier_node)) =
     Inr (Some example_global_scope) \<and>
   snd (getScope (Some example_scope_manager) (\<lambda>i. None) (Some example_identifier_node)) 7 =
     Some (Some example_global_scope)"
  using getScope_fallback [of example_scope_manager example_identifier_node
      example_global_scope "[]" "\<lambda>i. None" "\<lambda>i. None" example_identifier_node]
  by (simp add: example_scope_manager_def example_identifier_node_def
      example_program_node_def plain_node_def)

section \<open>Properties of the directive methods\<close>

lemma disableDirectiveStep_node:
  assumes "isInlineConfigNode ext c"
  shows "\<exists>acc'. disableDirectiveStep ext c acc = Inr acc' \<and>
     dd_problems acc' =
       dd_problems acc @ (if multilineDisableLine ext c then [multilineProblem c] else []) \<and>
     (\<forall>d \<in> set (dd_directives acc'). d \<in> set (dd_directives acc) \<or>
         (directive_node d = c \<and> \<not> multilineDisableLine ext c))"
  using assms
  by (auto simp: isInlineConfigNode_def disableDirectiveStep_def multilineDisableLine_def
      multilineProblem_def spansMultipleLines_def Let_def lineCommentSupported_def
      split: option.splits if_splits)

lemma multilineDisableLine_is_node:
  "directivesPattern_test ext ''eslint-disable-line'' \<Longrightarrow> \<not> isInlineConfigNode ext c
     \<Longrightarrow> \<not> multilineDisableLine ext c"
  by (auto simp: isInlineConfigNode_def multilineDisableLine_def lineCommentSupported_def
      split: option.splits if_splits)

lemma forEachComment_disableDirectiveStep:
  assumes dp: "directivesPattern_test ext ''eslint-disable-line''"
  shows "\<exists>acc'. forEachComment (disableDirectiveStep ext)
            (filter (isInlineConfigNode ext) cs) acc = Inr acc' \<and>
     dd_problems acc' =
       dd_problems acc @ map multilineProblem (filter (multilineDisableLine ext) cs) \<and>
     (\<forall>d \<in> set (dd_directives acc'). d \<in> set (dd_directives acc) \<or>
         (directive_node d \<in> set cs \<and> \<not> multilineDisableLine ext (directive_node d)))"
proof (induction cs arbitrary: acc)
  case Nil
  then show ?case by simp
next
  case (Cons c cs)
  show ?case
  proof (cases "isInlineConfigNode ext c")
    case False
    with Cons[of acc] multilineDisableLine_is_node[OF dp False] show ?thesis by auto
  next
    case True
    from disableDirectiveStep_node[OF True, of acc] obtain a1 where
      a1: "disableDirectiveStep ext c acc = Inr a1"
      "dd_problems a1 =
         dd_problems acc @ (if multilineDisableLine ext c then [multilineProblem c] else [])"
      "\<forall>d \<in> set (dd_directives a1). d \<in> set (dd_directives acc) \<or>
         (directive_node d = c \<and> \<not> multilineDisableLine ext c)" by blast
    from Cons[of a1] obtain a2 where
      a2: "forEachComment (disableDirectiveStep ext)
             (filter (isInlineConfigNode ext) cs) a1 = Inr a2"
       "dd_problems a2 =
          dd_problems a1 @ map multilineProblem (filter (multilineDisableLine ext) cs)"
       "\<forall>d \<in> set (dd_directives a2). d \<in> set (dd_directives a1) \<or>
         (directive_node d \<in> set cs \<and> \<not> multilineDisableLine ext (directive_node d))"
      by blast
    have "forEachComment (disableDirectiveStep ext)
            (filter (isInlineConfigNode ext) (c # cs)) acc = Inr a2"
      using True a1(1) a2(1) by simp
    moreover have "dd_problems a2 =
        dd_problems acc @ map multilineProblem (filter (multilineDisableLine ext) (c # cs))"
      using a1(2) a2(2) by simp
    moreover have "\<forall>d \<in> set (dd_directives a2). d \<in> set (dd_directives acc) \<or>
         (directive_node d \<in> set (c # cs) \<and> \<not> multilineDisableLine ext (directive_node d))"
      using a1(3) a2(3) by fastforce
    ultimately show ?thesis by blast
  qed
qed

text \<open>
  C4. When the directives pattern recognizes the label \<open>eslint-disable-line\<close>, the first
  call of \<open>getDisableDirectives\<close> returns normally, its problems are exactly one problem
  per \<open>eslint-disable-line\<close> comment that spans several lines, in the order of the
  comments, each with no rule id and with the location of its comment, and no returned
  directive belongs to such a comment. The result is stored in the cache.
\<close>

theorem getDisableDirectives_multiline:
  assumes "directivesPattern_test ext ''eslint-disable-line''"
  shows "\<exists>result caches'.
     getDisableDirectives ext comments new_directive_caches = Inr (result, caches') \<and>
     dd_problems result = map multilineProblem (filter (multilineDisableLine ext) comments) \<and>
     (\<forall>d \<in> set (dd_directives result). \<not> multilineDisableLine ext (directive_node d)) \<and>
     disableDirectives caches' = Some result"
proof -
  from forEachComment_disableDirectiveStep[OF assms, of comments
         "\<lparr>dd_problems = [], dd_directives = []\<rparr>"]
  obtain r where r:
    "forEachComment (disableDirectiveStep ext) (filter (isInlineConfigNode ext) comments)
      \<lparr>dd_problems = [], dd_directives = []\<rparr> = Inr r"
    "dd_problems r = map multilineProblem (filter (multilineDisableLine ext) comments)"
    "\<forall>d \<in> set (dd_directives r). \<not> multilineDisableLine ext (directive_node d)"
    by auto
  show ?thesis
    using r by (simp add: getDisableDirectives_def getInlineConfigNodes_def
        new_directive_caches_def Let_def)
qed

theorem getDisableDirectives_multiline_witness:
  "directivesPattern_test example_collaborators ''eslint-disable-line'' \<and>
   multilineDisableLine example_collaborators example_multiline_comment \<and>
   map_sum id fst (getDisableDirectives example_collaborators
      [example_multiline_comment, example_disable_comment] new_directive_caches) =
     Inr \<lparr>dd_problems = [multilineProblem example_multiline_comment],
          dd_directives = [\<lparr>directive_type = ''disable'',
             directive_node = example_disable_comment, directive_value = ''no-eval'',
             directive_justification = []\<rparr>]\<rparr>"
  using getDisableDirectives_multiline [of example_collaborators
      "[example_multiline_comment, example_disable_comment]"]
  by (simp add: example_collaborators_def example_multiline_comment_def
      example_disable_comment_def multilineDisableLine_def spansMultipleLines_def
      getDisableDirectives_def getInlineConfigNodes_def new_directive_caches_def
      isInlineConfigNode_def disableDirectiveStep_def lineCommentSupported_def
      multilineProblem_def Let_def)

lemma normalizeConfigGlobal_unrecognized:
  "\<not> recognized_global v \<Longrightarrow> normalizeConfigGlobal v = Inl (Error (invalid_global_message v))"
  by (auto simp: recognized_global_def normalizeConfigGlobal_def)

lemma invalid_global_message_has_value:
  "sublist (js_to_string v) (invalid_global_message v)"
  unfolding invalid_global_message_def
  by (metis sublist_appendI append_assoc)

text \<open>
  C9, as the code has it. Normalizing a setting that is not one of the recognized forms
  throws an error whose message contains the offending value, converted to a string,
  and is determined by the value alone; \<open>applyInlineConfig\<close> turns the error into a
  problem with that message at the location of the comment, whatever the name is.
\<close>

theorem normalizeConfigGlobal_invalid_value:
  assumes "\<not> recognized_global v"
  shows "normalizeConfigGlobal v = Inl (Error (invalid_global_message v)) \<and>
     sublist (js_to_string v) (invalid_global_message v) \<and>
     globalEntryStep comment (name, v) st =
       st\<lparr>ic_problems := ic_problems st @
            [\<lparr>ruleId = None, message = invalid_global_message v,
              prob_loc = com_loc comment\<rparr>]\<rparr>"
  using normalizeConfigGlobal_unrecognized[OF assms] invalid_global_message_has_value[of v]
  by (simp add: globalEntryStep_def)

theorem normalizeConfigGlobal_invalid_value_witness:
  "\<not> recognized_global (JString ''bar'') \<and>
   normalizeConfigGlobal (JString ''bar'') =
     Inl (Error (invalid_global_message (JString ''bar''))) \<and>
   sublist ''bar'' (invalid_global_message (JString ''bar'')) \<and>
   ic_problems (globalEntryStep example_globals_comment (''foo'', JString ''bar'')
      \<lparr>ic_problems = [], ic_configs = ([] :: unit inline_config list),
       ic_exportedVariables = [], ic_inlineGlobals = []\<rparr>) =
     [\<lparr>ruleId = None, message = invalid_global_message (JString ''bar''),
       prob_loc = com_loc example_globals_comment\<rparr>]"
  using normalizeConfigGlobal_invalid_value [of "JString ''bar''" example_globals_comment
      "''foo''" "\<lparr>ic_problems = [], ic_configs = ([] :: unit inline_config list),
       ic_exportedVariables = [], ic_inlineGlobals = []\<rparr>"]
  by (simp add: recognized_global_def)

text \<open>
  The claim as stated fails: the comment \<open>/* globals foo: bar */\<close> gives one problem, and
  its message does not contain the name \<open>foo\<close>.
\<close>

theorem invalid_global_message_omits_name:
  "map_sum id (map message \<circ> snd \<circ> fst)
     (applyInlineConfig example_collaborators [example_globals_comment]
        new_directive_caches) =
     Inr [invalid_global_message (JString ''bar'')] \<and>
   \<not> sublist ''foo'' (invalid_global_message (JString ''bar''))"
  by (simp add: applyInlineConfig_def getInlineConfigNodes_def new_directive_caches_def
      isInlineConfigNode_def example_collaborators_def example_globals_comment_def
      inlineConfigStep_def globalEntryStep_def normalizeConfigGlobal_def
      invalid_global_message_def sublist_code Let_def)

section \<open>Properties of the stack of contexts\<close>

text \<open>
  C7. A \<open>this\<close>/\<open>super\<close> usage event (\<open>markThisUsed\<close>) sets the top frame of the stack to
  true and leaves every frame below the top as it was; the number of frames does not
  change, and on the empty stack the event changes nothing.
\<close>

theorem markThisUsed_top_only:
  "markThisUsed [] = [] \<and>
   length (markThisUsed frames) = length frames \<and>
   (frames \<noteq> [] \<longrightarrow> last (markThisUsed frames) = True \<and>
      markThisUsed frames = butlast frames @ [True]) \<and>
   (\<forall>i. i + 1 < length frames \<longrightarrow> markThisUsed frames ! i = frames ! i)"
proof -
  have top: "markThisUsed frames = butlast frames @ [True]" if "frames \<noteq> []"
  proof -
    from that obtain ys y where s: "frames = ys @ [y]"
      by (metis rev_exhaust)
    show ?thesis by (simp add: markThisUsed_def s)
  qed
  have below: "markThisUsed frames ! i = frames ! i" if "i + 1 < length frames" for i
    using that by (simp add: markThisUsed_def)
  show ?thesis
    using top below by (simp add: markThisUsed_def)
qed

theorem markThisUsed_top_only_witness:
  "markThisUsed [False, True, False] = [False, True, True] \<and>
   markThisUsed [False, True, False] ! 0 = False \<and>
   markThisUsed [False, True, False] ! 1 = True \<and>
   markThisUsed [] = []"
  using markThisUsed_top_only [of "[False, True, False]"]
  by (simp add: markThisUsed_def)

section \<open>Properties of the rule\<close>

lemma runSteps_append:
  "runSteps utils opts (xs @ ys) st =
     (case runSteps utils opts xs st of
        Inl e \<Rightarrow> Inl e
      | Inr st' \<Rightarrow> runSteps utils opts ys st')"
  by (induction xs arbitrary: st) (auto split: sum.splits)

lemma markThisUsed_idem [simp]: "markThisUsed (markThisUsed s) = markThisUsed s"
  by (simp add: markThisUsed_def)

lemma markThisUsed_push [simp]: "markThisUsed (s @ [b]) = s @ [True]"
  by (simp add: markThisUsed_def)

lemma popContext_push [simp]: "popContext (s @ [b]) = (Some b, s)"
  by (simp add: popContext_def)

lemma isIncludedInstanceMethod_other:
  "\<not> isMemberType (node_type (attrs p)) \<Longrightarrow> isIncludedInstanceMethod utils opts p = Inr False"
  by (simp add: isIncludedInstanceMethod_def isInstanceMethod_def isMemberType_def)

lemma afterBody_False [simp]: "afterBody False st = st"
  by (simp add: afterBody_def)

lemma afterBody_afterBody [simp]: "afterBody u (afterBody v st) = afterBody (v \<or> u) st"
  by (simp add: afterBody_def)

lemma children_steps:
  assumes "\<And>c st. c \<in> set cs \<Longrightarrow>
      runSteps utils opts (traverseNode c (Some n)) st = Inr (afterBody (usesThis c) st)"
  shows "runSteps utils opts (concat (map (\<lambda>c. traverseNode c (Some n)) cs)) st =
         Inr (afterBody (list_ex usesThis cs) st)"
  using assms
proof (induction cs arbitrary: st)
  case Nil
  then show ?case by simp
next
  case (Cons c cs)
  have 1: "runSteps utils opts (traverseNode c (Some n)) st = Inr (afterBody (usesThis c) st)"
    using Cons.prems by simp
  have 2: "runSteps utils opts (concat (map (\<lambda>c. traverseNode c (Some n)) cs))
      (afterBody (usesThis c) st) =
      Inr (afterBody (list_ex usesThis cs) (afterBody (usesThis c) st))"
    using Cons.IH Cons.prems by simp
  show ?case
    using 1 2 by (simp add: runSteps_append)
qed

lemma classFree_steps:
  assumes "classFree t" "\<not> isMemberType (node_type (attrs p))"
  shows "runSteps utils opts (traverseNode t (Some p)) st = Inr (afterBody (usesThis t) st)"
  using assms
proof (induction t arbitrary: p st)
  case (Tree a f cs)
  define n where "n = AstNode a (map_option tree_attrs (find (\<lambda>c. tree_field c = ''key'') cs)) f (Some p)"
  have na: "attrs n = a" "parent n = Some p" "field n = f" by (simp_all add: n_def)
  have nm: "\<not> isMemberType (node_type a)" "node_type a \<noteq> ''StaticBlock''"
    using Tree.prems(1) by simp_all
  have "runSteps utils opts (traverseNode c (Some n)) st' = Inr (afterBody (usesThis c) st')"
    if "c \<in> set cs" for c st'
    using Tree.IH[OF that, of n st'] Tree.prems(1) that nm by (simp add: na list_all_iff)
  then have kids: "runSteps utils opts (concat (map (\<lambda>c. traverseNode c (Some n)) cs)) st' =
         Inr (afterBody (list_ex usesThis cs) st')" for st'
    by (rule children_steps)
  have nofield: "\<not> isFieldNode p" "\<not> isFieldNode n"
    using Tree.prems(2) nm by (auto simp: isFieldNode_def isMemberType_def na)
  have nokey: "\<not> childOfField g n" for g
    using nofield by (simp add: childOfField_def na)
  have noarrow: "\<not> isArrowValue opts n"
    using nokey by (simp add: isArrowValue_def)
  have steps: "traverseNode (Tree a f cs) (Some p) =
      VisitNodeStep n 1 # concat (map (\<lambda>c. traverseNode c (Some n)) cs) @ [VisitNodeStep n 2]"
    by (simp add: n_def Let_def)
  show ?case
  proof (cases "isFunctionNode n")
    case True
    then have ut: "usesThis (Tree a f cs) = False"
      by (auto simp: isFunctionNode_def na)
    have en: "enterNode opts n st = st\<lparr>stack := stack st @ [False]\<rparr>"
      using True by (simp add: enterNode_def enterFunction_def pushContext_def)
    have lv: "leaveNode utils opts n (afterBody u (st\<lparr>stack := stack st @ [False]\<rparr>)) = Inr st" for u
      using True nokey isIncludedInstanceMethod_other[OF Tree.prems(2), of utils opts]
      by (simp add: leaveNode_def exitFunction_def na afterBody_def)
    show ?thesis
      unfolding steps
      by (simp add: runSteps_append ut en lv kids del: usesThis.simps)
  next
    case False
    show ?thesis
    proof (cases "node_type a = ''ThisExpression'' \<or> node_type a = ''Super''")
      case True
      have en: "enterNode opts n st = afterBody True st"
        using True False nm by (auto simp: enterNode_def na afterBody_def)
      have lv: "leaveNode utils opts n st' = Inr st'" for st'
        using False nofield nm nokey noarrow by (simp add: leaveNode_def na)
      have ut: "usesThis (Tree a f cs) = True"
        using True by auto
      show ?thesis
        unfolding steps
        by (simp add: runSteps_append ut en lv kids del: usesThis.simps)
    next
      case other: False
      have en: "enterNode opts n st = st"
        using other False nm noarrow by (simp add: enterNode_def na)
      have lv: "leaveNode utils opts n st' = Inr st'" for st'
        using False nofield nm nokey noarrow by (simp add: leaveNode_def na)
      have ut: "usesThis (Tree a f cs) = list_ex usesThis cs"
        using other False by (auto simp: isFunctionNode_def na)
      show ?thesis
        unfolding steps
        by (simp add: runSteps_append ut en lv kids del: usesThis.simps)
    qed
  qed
qed

lemma method_steps:
  assumes "list_all classFree (md_body m)"
  shows "runSteps utils defaultOptions (traverseNode (classMethod m) (Some p)) st =
     Inr (st\<lparr>reports := reports st @
            (if unusedThis m then [missingThis utils (functionNode m p)] else [])\<rparr>)"
proof -
  define mn where "mn = methodNode m p"
  define fn where "fn = functionNode m p"
  define kn where "kn = AstNode (plain_node (md_keyId m) ''Identifier'' (md_name m)) None ''key'' (Some mn)"
  have steps: "traverseNode (classMethod m) (Some p) =
      VisitNodeStep mn 1 # VisitNodeStep kn 1 # VisitNodeStep kn 2 #
      VisitNodeStep fn 1 # concat (map (\<lambda>c. traverseNode c (Some fn)) (md_body m)) @
      [VisitNodeStep fn 2, VisitNodeStep mn 2]"
    by (simp add: classMethod_def leaf_def mn_def fn_def kn_def methodNode_def functionNode_def
        Let_def)
  have fnm: "\<not> isMemberType (node_type (attrs fn))"
    by (simp add: fn_def functionNode_def plain_node_def isMemberType_def)
  have "runSteps utils defaultOptions (traverseNode c (Some fn)) st' =
      Inr (afterBody (usesThis c) st')" if "c \<in> set (md_body m)" for c st'
    using classFree_steps[OF _ fnm] assms that by (simp add: list_all_iff)
  then have kids: "runSteps utils defaultOptions
      (concat (map (\<lambda>c. traverseNode c (Some fn)) (md_body m))) st' =
      Inr (afterBody (list_ex usesThis (md_body m)) st')" for st'
    by (rule children_steps)
  have e_mn: "enterNode defaultOptions mn st' = st'" for st'
    by (simp add: enterNode_def mn_def methodNode_def method_attrs_def plain_node_def
        isFunctionNode_def isArrowValue_def)
  have l_mn: "leaveNode utils defaultOptions mn st' = Inr st'" for st'
    by (simp add: leaveNode_def mn_def methodNode_def method_attrs_def plain_node_def
        isFunctionNode_def isFieldNode_def isArrowValue_def childOfField_def)
  have e_kn: "enterNode defaultOptions kn st' = st'" for st'
    by (simp add: enterNode_def kn_def plain_node_def isFunctionNode_def isArrowValue_def)
  have l_kn: "leaveNode utils defaultOptions kn st' = Inr st'" for st'
    by (simp add: leaveNode_def kn_def mn_def methodNode_def method_attrs_def plain_node_def
        isFunctionNode_def isFieldNode_def isArrowValue_def childOfField_def)
  have e_fn: "enterNode defaultOptions fn st' = st'\<lparr>stack := stack st' @ [False]\<rparr>" for st'
    by (simp add: enterNode_def fn_def functionNode_def plain_node_def isFunctionNode_def
        enterFunction_def pushContext_def)
  have inc: "isIncludedInstanceMethod utils defaultOptions mn = Inr (\<not> md_static m)"
    by (simp add: isIncludedInstanceMethod_def isInstanceMethod_def mn_def methodNode_def
        method_attrs_def plain_node_def defaultOptions_def)
  have f_fn: "isFunctionNode fn" "parent fn = Some mn" "\<not> childOfField ''key'' fn"
    by (simp_all add: fn_def functionNode_def mn_def plain_node_def isFunctionNode_def
        childOfField_def)
  have l_fn: "leaveNode utils defaultOptions fn
      (afterBody u (st\<lparr>stack := stack st @ [False]\<rparr>)) =
      Inr (st\<lparr>reports := reports st @
            (if \<not> md_static m \<and> \<not> u then [missingThis utils fn] else [])\<rparr>)" for u
    by (cases u) (simp_all add: leaveNode_def exitFunction_def afterBody_def missingThis_def
        f_fn inc)
  show ?thesis
    unfolding steps
    by (simp add: runSteps_append e_mn l_mn e_kn l_kn e_fn l_fn kids unusedThis_def
        fn_def[symmetric])
qed

lemma members_steps:
  assumes "list_all (\<lambda>m. list_all classFree (md_body m)) ms"
  shows "runSteps utils defaultOptions
           (concat (map (\<lambda>c. traverseNode c (Some p)) (map classMethod ms))) st =
         Inr (st\<lparr>reports := reports st @
                map (\<lambda>m. missingThis utils (functionNode m p)) (filter unusedThis ms)\<rparr>)"
  using assms
proof (induction ms arbitrary: st)
  case Nil
  then show ?case by simp
next
  case (Cons m ms)
  have 1: "list_all classFree (md_body m)" using Cons.prems by simp
  have 2: "list_all (\<lambda>m. list_all classFree (md_body m)) ms" using Cons.prems by simp
  show ?case
    by (simp add: runSteps_append method_steps[OF 1] Cons.IH[OF 2] del: map_map)
qed

lemma members_no_key: "find (\<lambda>c. tree_field c = ''key'') (map classMethod ms) = None"
  by (induction ms) (simp_all add: classMethod_def)

lemma class_reports:
  assumes "list_all (\<lambda>m. list_all classFree (md_body m)) ms"
  shows "runRule utils defaultOptions (classDeclaration (map classMethod ms)) =
         Inr \<lparr>stack = [],
              reports = map (\<lambda>m. missingThis utils (functionNode m classBodyNode))
                          (filter unusedThis ms)\<rparr>"
proof -
  define idn where "idn = AstNode (plain_node 3 ''Identifier'' ''A'') None ''id''
      (Some classDeclarationNode)"
  have steps: "SourceCode_traverse (classDeclaration (map classMethod ms)) =
      [VisitNodeStep programNode 1, VisitNodeStep classDeclarationNode 1,
       VisitNodeStep idn 1, VisitNodeStep idn 2, VisitNodeStep classBodyNode 1] @
      concat (map (\<lambda>c. traverseNode c (Some classBodyNode)) (map classMethod ms)) @
      [VisitNodeStep classBodyNode 2, VisitNodeStep classDeclarationNode 2,
       VisitNodeStep programNode 2]"
    by (simp add: SourceCode_traverse_def classDeclaration_def leaf_def Let_def
        members_no_key programNode_def classDeclarationNode_def classBodyNode_def idn_def
        del: map_map)
  have types: "node_type (attrs programNode) = ''Program''"
    "node_type (attrs classDeclarationNode) = ''ClassDeclaration''"
    "node_type (attrs idn) = ''Identifier''"
    "node_type (attrs classBodyNode) = ''ClassBody''"
    by (simp_all add: programNode_def classDeclarationNode_def classBodyNode_def idn_def
        plain_node_def)
  have parents: "parent programNode = None"
    "parent classDeclarationNode = Some programNode"
    "parent idn = Some classDeclarationNode"
    "parent classBodyNode = Some classDeclarationNode"
    by (simp_all add: programNode_def classDeclarationNode_def classBodyNode_def idn_def)
  have e: "enterNode defaultOptions n st = st"
    if "n \<in> {programNode, classDeclarationNode, idn, classBodyNode}" for n st
    using that
    by (auto simp: enterNode_def isFunctionNode_def isFieldNode_def isArrowValue_def
        childOfField_def types parents)
  have l: "leaveNode utils defaultOptions n st = Inr st"
    if "n \<in> {programNode, classDeclarationNode, idn, classBodyNode}" for n st
    using that
    by (auto simp: leaveNode_def isFunctionNode_def isFieldNode_def isArrowValue_def
        childOfField_def types parents)
  show ?thesis
    unfolding runRule_def steps
    by (simp add: runSteps_append e l members_steps[OF assms] del: map_map)
qed

lemma example_class_ast_members:
  "example_class_ast = classDeclaration (map classMethod [example_foo, example_bar])"
  by (simp add: example_class_ast_def classDeclaration_def classMethod_def example_foo_def
      example_bar_def)

text \<open>
  C6. With the default options, the rule run over the steps of the traversal of
  \<open>class A { foo() { return 1; } bar() { return this.x; } }\<close> ends with an empty stack
  and exactly one report, \<open>missingThis\<close> for the function of method \<open>foo\<close>. For every
  class with a static method, an instance method whose body uses \<open>this\<close> and an instance
  method whose body does not, in this order and with bodies free of class members, it
  ends with an empty stack and exactly one report, for the function of the third method.
\<close>

theorem class_methods_use_this_reports:
  "runRule utils defaultOptions example_class_ast =
     Inr \<lparr>stack = [],
          reports = [missingThis utils (functionNode example_foo classBodyNode)]\<rparr> \<and>
   reportedMethodName (missingThis utils (functionNode example_foo classBodyNode)) =
     Some ''foo'' \<and>
   (md_static m1 \<and> \<not> md_static m2 \<and> \<not> md_static m3 \<and>
    list_all classFree (md_body m1) \<and> list_all classFree (md_body m2) \<and>
    list_all classFree (md_body m3) \<and>
    list_ex usesThis (md_body m2) \<and> \<not> list_ex usesThis (md_body m3) \<longrightarrow>
    runRule utils defaultOptions (classDeclaration [classMethod m1, classMethod m2, classMethod m3]) =
      Inr \<lparr>stack = [], reports = [missingThis utils (functionNode m3 classBodyNode)]\<rparr>)"
proof -
  have cf: "list_all (\<lambda>m. list_all classFree (md_body m)) [example_foo, example_bar]"
    by (simp add: example_foo_def example_bar_def leaf_def plain_node_def isMemberType_def)
  have un: "filter unusedThis [example_foo, example_bar] = [example_foo]"
    by (simp add: unusedThis_def example_foo_def example_bar_def leaf_def plain_node_def)
  have a: "runRule utils defaultOptions example_class_ast =
     Inr \<lparr>stack = [],
          reports = [missingThis utils (functionNode example_foo classBodyNode)]\<rparr>"
    unfolding example_class_ast_members class_reports[OF cf] un by simp
  have b: "reportedMethodName (missingThis utils (functionNode example_foo classBodyNode)) =
     Some ''foo''"
    by (simp add: reportedMethodName_def missingThis_def functionNode_def methodNode_def
        plain_node_def example_foo_def)
  have c: "runRule utils defaultOptions
        (classDeclaration [classMethod m1, classMethod m2, classMethod m3]) =
      Inr \<lparr>stack = [], reports = [missingThis utils (functionNode m3 classBodyNode)]\<rparr>"
    if h: "md_static m1 \<and> \<not> md_static m2 \<and> \<not> md_static m3 \<and>
      list_all classFree (md_body m1) \<and> list_all classFree (md_body m2) \<and>
      list_all classFree (md_body m3) \<and>
      list_ex usesThis (md_body m2) \<and> \<not> list_ex usesThis (md_body m3)"
  proof -
    have cf3: "list_all (\<lambda>m. list_all classFree (md_body m)) [m1, m2, m3]"
      using h by simp
    have un3: "filter unusedThis [m1, m2, m3] = [m3]"
      using h by (simp add: unusedThis_def)
    have eq: "classDeclaration [classMethod m1, classMethod m2, classMethod m3] =
        classDeclaration (map classMethod [m1, m2, m3])" by simp
    show ?thesis
      unfolding eq class_reports[OF cf3] un3 by simp
  qed
  show ?thesis using a b c by blast
qed

theorem class_methods_use_this_reports_witness:
  "md_static example_static \<and> \<not> md_static example_bar \<and> \<not> md_static example_nested \<and>
   list_all classFree (md_body example_static) \<and> list_all classFree (md_body example_bar) \<and>
   list_all classFree (md_body example_nested) \<and>
   list_ex usesThis (md_body example_bar) \<and> \<not> list_ex usesThis (md_body example_nested) \<and>
   runRule example_utils defaultOptions
     (classDeclaration [classMethod example_static, classMethod example_bar,
        classMethod example_nested]) =
     Inr \<lparr>stack = [],
          reports = [missingThis example_utils (functionNode example_nested classBodyNode)]\<rparr> \<and>
   report_name (missingThis example_utils (functionNode example_nested classBodyNode)) =
     ''method b''"
proof -
  have h: "md_static example_static \<and> \<not> md_static example_bar \<and> \<not> md_static example_nested \<and>
   list_all classFree (md_body example_static) \<and> list_all classFree (md_body example_bar) \<and>
   list_all classFree (md_body example_nested) \<and>
   list_ex usesThis (md_body example_bar) \<and> \<not> list_ex usesThis (md_body example_nested)"
    by (simp add: example_static_def example_bar_def example_nested_def leaf_def
        plain_node_def isMemberType_def)
  have n: "report_name (missingThis example_utils (functionNode example_nested classBodyNode)) =
     ''method b''"
    by (simp add: missingThis_def example_utils_def functionNode_def methodNode_def
        example_nested_def plain_node_def)
  from class_methods_use_this_reports[of example_utils example_static example_bar
      example_nested] h n
  show ?thesis by blast
qed

end
